theory Spec2Isabelle
  imports Main "HOL-Library.Sublist" "HOL-Library.AList"
begin

section \<open>Strings as the watcher uses them\<close>

text \<open>
  \<^verbatim>\<open>path.includes(pkg.dir)\<close> is JavaScript's substring test: it holds when the
  argument occurs anywhere in the receiver, and always for the empty argument.
\<close>

fun js_includes :: "string \<Rightarrow> string \<Rightarrow> bool" where
  "js_includes [] sub = (sub = [])"
| "js_includes (c # cs) sub = (prefix sub (c # cs) \<or> js_includes cs sub)"

text \<open>
  \<^verbatim>\<open>s.split("/")\<close> with a one-character separator: the pieces between the
  separators, in order; the empty string gives one empty piece.
\<close>

fun split_on :: "char \<Rightarrow> string \<Rightarrow> string list" where
  "split_on sep [] = [[]]"
| "split_on sep (c # cs) =
     (if c = sep then [] # split_on sep cs
      else (case split_on sep cs of
              [] \<Rightarrow> [[c]]
            | w # ws \<Rightarrow> (c # w) # ws))"

text \<open>
  \<^verbatim>\<open>pkg.dir.split("/").pop() as string\<close>: \<^verbatim>\<open>pop\<close> gives the last element of
  the array. The array of a split is never empty (lemma \<open>split_on_not_Nil\<close> below), so
  the \<^verbatim>\<open>undefined\<close> that \<^verbatim>\<open>pop\<close> gives on an empty array does not arise here.
\<close>

definition dir_basename :: "string \<Rightarrow> string" where
  "dir_basename d = last (split_on CHR ''/'' d)"

section \<open>Packages and package resolution\<close>

text \<open>
  A package of \<^verbatim>\<open>@manypkg/get-packages\<close>: its directory and its manifest, of which
  the watcher reads the declared name.
\<close>

record package_json =
  name :: string

record package =
  dir :: string
  packageJson :: package_json

record pkg_ref =
  currentPkg :: string
  packagePath :: string

text \<open>
  \<^verbatim>\<open>Events.getPackage\<close>: both results start as the empty string; \<^verbatim>\<open>forEach\<close> visits
  every package in list order and each match overwrites both results.
\<close>

definition getPackage :: "package list \<Rightarrow> string \<Rightarrow> pkg_ref" where
  "getPackage packages path =
     foldl (\<lambda>acc pkg.
              if js_includes path (dir pkg)
              then \<lparr>currentPkg = dir_basename (dir pkg), packagePath = dir pkg\<rparr>
              else acc)
           \<lparr>currentPkg = [], packagePath = []\<rparr> packages"

text \<open>The packages whose directory occurs in the path, in list order.\<close>

definition matching :: "package list \<Rightarrow> string \<Rightarrow> package list" where
  "matching packages path = filter (\<lambda>pkg. js_includes path (dir pkg)) packages"

section \<open>Configuration\<close>

text \<open>
  A configured action is a function value. \<^verbatim>\<open>isAsync\<close> is the helper of
  \<^verbatim>\<open>helpers/utils\<close>, which is not among the sources: its answer for a function is
  carried by the function value.
\<close>

datatype user_fn = UserFn (fn_id: nat) (isAsync: bool)

datatype js_error =
    TypeError
  | NoPackageName
  | ActionNotAsync string
  | NoCommandOrActions
  | SpawnError string
  | StderrError string
  | StatError string
  | CallbackError string


record ArgsOptions =
  run :: "string list"

text \<open>The merged configuration the watcher reads.\<close>

record InternalConfig =
  cfg_prefix :: string
  cfg_actions :: "(string \<times> user_fn) list option"
  cfg_include :: "string list"
  cfg_runScripts :: "string list"
  cfg_noChildProcessLogs :: bool









section \<open>The watcher's state and what it does to the outside\<close>

datatype fs_stats = Stats nat

record ActionOpts = pkg_ref +
  filePath :: string
  stats :: "fs_stats option"

text \<open>
  The \<^verbatim>\<open>stdio\<close> option of a spawn: the string \<^verbatim>\<open>"ignore"\<close>, or one entry per
  stream (stdin, stdout, stderr).
\<close>

datatype stdio_slot = Inherit | Pipe | Ignore | ParentStderr

datatype StdioOptions = StdioAll stdio_slot | StdioEach "stdio_slot list"

text \<open>
  The three streams a \<^verbatim>\<open>stdio\<close> option stands for: the string form sets all three.
\<close>

definition stream_slots :: "StdioOptions \<Rightarrow> stdio_slot list" where
  "stream_slots io = (case io of StdioAll x \<Rightarrow> [x, x, x] | StdioEach xs \<Rightarrow> xs)"

record spawn_call =
  command :: "string option"
  args :: "string list"
  spawn_env :: "(string \<times> string) list"
  cwd :: string
  stdio :: StdioOptions

text \<open>
  The result of \<^verbatim>\<open>spawn.sync\<close>: \<^verbatim>\<open>error\<close> is an error object or undefined,
  \<^verbatim>\<open>stderr\<close> a buffer (no encoding is asked for) or null.
\<close>

record spawn_result =
  error :: "string option"
  stderr :: "string option"

text \<open>
  What a started command does, as far as the watcher can see it: whether the spawn
  itself fails, and what the command writes to its stderr.
\<close>

record child_run =
  spawn_failure :: "string option"
  wrote_stderr :: string

datatype settlement = Fulfilled | Rejected string

datatype log_entry =
    Log bool string string
  | Custom string string string

datatype event =
    Logged log_entry
  | Called nat user_fn ActionOpts
  | Settled nat settlement
  | Spawned spawn_call
  | WatchAdd string
  | Unwatch string
  | LockAcquired
  | LockReleased
  | UnhandledRejection js_error
  | UncaughtException js_error

text \<open>
  What the watcher calls and does not define: \<^verbatim>\<open>convertPath\<close> of
  \<^verbatim>\<open>helpers/utils\<close> (not among the sources), the command that a spawn runs and
  \<^verbatim>\<open>fs.statSync\<close>.
\<close>

record externals =
  convertPath :: "string \<Rightarrow> string \<Rightarrow> string"
  run_child :: "spawn_call \<Rightarrow> child_run"
  statSync :: "string \<Rightarrow> js_error + fs_stats"

text \<open>
  \<^verbatim>\<open>spawn.sync\<close> of cross-spawn, which hands over to \<^verbatim>\<open>spawnSync\<close> of the runtime
  (neither is among the sources). A command that is not a string makes it throw, with
  the code \<^verbatim>\<open>ERR_INVALID_ARG_TYPE\<close>. Otherwise it returns when the command has ended:
  the result carries the error of a failed spawn, and what the command wrote to its
  stderr only where that stream is a pipe to the parent; for every other stderr slot
  the \<^verbatim>\<open>stderr\<close> of the result is null. An array without a third entry leaves
  stderr at its default, a pipe.
\<close>

definition stderr_slot :: "StdioOptions \<Rightarrow> stdio_slot" where
  "stderr_slot io =
     (case io of
        StdioAll x \<Rightarrow> x
      | StdioEach xs \<Rightarrow> (case drop 2 xs of [] \<Rightarrow> Pipe | x # _ \<Rightarrow> x))"

definition spawn_sync :: "externals \<Rightarrow> spawn_call \<Rightarrow> js_error + spawn_result" where
  "spawn_sync ext call =
     (case command call of
        None \<Rightarrow> Inl (SpawnError ''ERR_INVALID_ARG_TYPE'')
      | Some c \<Rightarrow>
          Inr \<lparr>error = spawn_failure (run_child ext call),
               stderr = (if stderr_slot (stdio call) = Pipe
                         then Some (wrote_stderr (run_child ext call)) else None)\<rparr>)"

text \<open>The fields of the \<^verbatim>\<open>Events\<close> object that the handlers read.\<close>

record events =
  root :: string
  config :: InternalConfig
  packages :: "package list"

text \<open>
  The closure handed to the lock: \<^verbatim>\<open>() => { this.runUserFn("Change", {...}, change) }\<close>.
\<close>

record lock_task =
  task_opts :: ActionOpts
  task_fn :: "user_fn option"

text \<open>
  The state: \<^verbatim>\<open>process.env\<close>, the watch set of the file watcher, everything done so
  far in order, the promises of user callbacks that have not settled yet (each with
  the event name and relative path its \<^verbatim>\<open>then\<close> continuation holds), the next
  promise number, and the lock of key \<^verbatim>\<open>LOCK_NAME\<close> with its queue.
\<close>

record state =
  env :: "(string \<times> string) list"
  watched :: "string set"
  trace :: "event list"
  pending :: "(nat \<times> string \<times> string) list"
  next_promise :: nat
  lock_held :: bool
  lock_queue :: "lock_task list"

definition emit :: "event list \<Rightarrow> state \<Rightarrow> state" where
  "emit es s = s\<lparr>trace := trace s @ es\<rparr>"

section \<open>The action runner\<close>

text \<open>\<^verbatim>\<open>Events.EndLogger\<close>: the "completed" entry, a header line and the tagged line.\<close>

definition completed_entry :: "string \<Rightarrow> string \<Rightarrow> event" where
  "completed_entry eventName path = Logged (Custom eventName ''success'' path)"

definition EndLogger :: "string \<Rightarrow> string \<Rightarrow> state \<Rightarrow> state" where
  "EndLogger eventName path s =
     emit [Logged (Log False ''Action Completed\<newline>'' ''log''), completed_entry eventName path] s"

text \<open>
  \<^verbatim>\<open>fn && isAsync(fn) === true\<close>: the configured function when the test holds.
\<close>

definition async_of :: "user_fn option \<Rightarrow> user_fn option" where
  "async_of fn = (case fn of None \<Rightarrow> None | Some f \<Rightarrow> if isAsync f then Some f else None)"

definition present_async :: "user_fn option \<Rightarrow> bool" where
  "present_async fn \<longleftrightarrow> async_of fn \<noteq> None"

text \<open>
  The spawn of the fallback branch: \<^verbatim>\<open>runScripts[0]\<close> is undefined for an empty
  list, \<^verbatim>\<open>runScripts.slice(1)\<close> is the rest.
\<close>

definition stdio_of :: "InternalConfig \<Rightarrow> StdioOptions" where
  "stdio_of cfg =
     (if cfg_noChildProcessLogs cfg then StdioAll Ignore
      else StdioEach [Inherit, Pipe, ParentStderr])"

definition spawn_of :: "InternalConfig \<Rightarrow> ActionOpts \<Rightarrow> (string \<times> string) list \<Rightarrow> spawn_call" where
  "spawn_of cfg options e =
     \<lparr>command = (case cfg_runScripts cfg of [] \<Rightarrow> None | c # _ \<Rightarrow> Some c),
      args = drop 1 (cfg_runScripts cfg),
      spawn_env = e,
      cwd = packagePath options,
      stdio = stdio_of cfg\<rparr>"

text \<open>
  \<^verbatim>\<open>Events.runUserFn\<close>, up to its return or throw. In the first branch the callback
  is called and its promise gets a \<^verbatim>\<open>then\<close> continuation; nothing waits for it.
  In the second, \<^verbatim>\<open>process.env.FORCE_COLOR\<close> is set, \<^verbatim>\<open>spawn.sync\<close> is called
  (the event \<open>Spawned\<close>) and throws or runs the command to its end, and an error
  object or a non-null stderr of its result is thrown.
\<close>

definition runUserFn ::
  "externals \<Rightarrow> events \<Rightarrow> string \<Rightarrow> ActionOpts \<Rightarrow> user_fn option \<Rightarrow> state
     \<Rightarrow> (js_error + unit) \<times> state" where
  "runUserFn ext this eventName options fn s =
     (let relativePath = convertPath ext (root this) (filePath options) in
      case async_of fn of
        Some f \<Rightarrow>
          (let n = next_promise s in
           (Inr (),
            emit [Called n f options]
              (s\<lparr>pending := pending s @ [(n, eventName, relativePath)],
                 next_promise := Suc n\<rparr>)))
      | None \<Rightarrow>
          (let s1 = s\<lparr>env := AList.update ''FORCE_COLOR'' ''true'' (env s)\<rparr>;
               call = spawn_of (config this) options (env s1);
               s2 = emit [Spawned call] s1
           in case spawn_sync ext call of
                Inl e \<Rightarrow> (Inl e, s2)
              | Inr cp \<Rightarrow>
                  (case error cp of
                     Some e \<Rightarrow> (Inl (SpawnError e), s2)
                   | None \<Rightarrow>
                       (case stderr cp of
                          Some buf \<Rightarrow> (Inl (StderrError buf), s2)
                        | None \<Rightarrow> (Inr (), EndLogger eventName relativePath s2)))))"

text \<open>
  A user promise settles: its \<^verbatim>\<open>then\<close> continuation runs \<^verbatim>\<open>EndLogger\<close> when it
  is fulfilled; there is no rejection handler, so a rejection is unhandled.
\<close>

definition settle :: "nat \<Rightarrow> settlement \<Rightarrow> state \<Rightarrow> state" where
  "settle n outcome s =
     (case find (\<lambda>(m, _, _). m = n) (pending s) of
        None \<Rightarrow> s
      | Some (_, eventName, relativePath) \<Rightarrow>
          (let s1 = emit [Settled n outcome] (s\<lparr>pending := filter (\<lambda>(m, _, _). m \<noteq> n) (pending s)\<rparr>)
           in case outcome of
                Fulfilled \<Rightarrow> EndLogger eventName relativePath s1
              | Rejected reason \<Rightarrow> emit [UnhandledRejection (CallbackError reason)] s1))"

section \<open>The event handlers\<close>

text \<open>
  Modelled from the spec: the watch primitive's path set (the file watcher, chokidar,
  is not among the sources). The core calls \<^verbatim>\<open>add(path)\<close> and \<^verbatim>\<open>unwatch(path)\<close>
  back on it to grow and shrink the watch set.
\<close>

definition watcher_add :: "string \<Rightarrow> state \<Rightarrow> state" where
  "watcher_add p s = emit [WatchAdd p] (s\<lparr>watched := insert p (watched s)\<rparr>)"

definition watcher_unwatch :: "string \<Rightarrow> state \<Rightarrow> state" where
  "watcher_unwatch p s = emit [Unwatch p] (s\<lparr>watched := watched s - {p}\<rparr>)"

text \<open>\<^verbatim>\<open>this.config?.actions?.add\<close> and its siblings.\<close>

definition action_of :: "events \<Rightarrow> string \<Rightarrow> user_fn option" where
  "action_of this key =
     (case cfg_actions (config this) of None \<Rightarrow> None | Some acts \<Rightarrow> map_of acts key)"

definition opts_of :: "events \<Rightarrow> string \<Rightarrow> fs_stats option \<Rightarrow> ActionOpts" where
  "opts_of this path st =
     (let r = getPackage (packages this) path
      in \<lparr>currentPkg = currentPkg r, packagePath = packagePath r, filePath = path, stats = st\<rparr>)"

definition onAdd ::
  "externals \<Rightarrow> events \<Rightarrow> string \<Rightarrow> fs_stats option \<Rightarrow> state \<Rightarrow> (js_error + unit) \<times> state" where
  "onAdd ext this path st s =
     runUserFn ext this ''Add'' (opts_of this path st) (action_of this ''add'')
       (watcher_add path s)"

definition onAddDir ::
  "externals \<Rightarrow> events \<Rightarrow> string \<Rightarrow> fs_stats option \<Rightarrow> state \<Rightarrow> (js_error + unit) \<times> state" where
  "onAddDir ext this path st s =
     runUserFn ext this ''Add Dir'' (opts_of this path st) (action_of this ''addDir'')
       (watcher_add path s)"

definition onUnlink ::
  "externals \<Rightarrow> events \<Rightarrow> string \<Rightarrow> state \<Rightarrow> (js_error + unit) \<times> state" where
  "onUnlink ext this path s =
     runUserFn ext this ''Remove'' (opts_of this path None) (action_of this ''unlink'')
       (watcher_unwatch path s)"

definition onUnlinkDir ::
  "externals \<Rightarrow> events \<Rightarrow> string \<Rightarrow> state \<Rightarrow> (js_error + unit) \<times> state" where
  "onUnlinkDir ext this path s =
     runUserFn ext this ''Remove Dir'' (opts_of this path None) (action_of this ''unlinkDir'')
       (watcher_unwatch path s)"

subsection \<open>The lock around the change action\<close>

text \<open>
  Modelled from the spec: the execution lock (the package async-lock is not among the
  sources), a named mutual-exclusion gate: a caller that acquires while it is held is
  queued in arrival order, and the lock is released when the work of the function it
  was given completes. What the lock sees of that work is the function's return value.
  The closure the source hands over has a block body with no \<^verbatim>\<open>return\<close> and takes no
  parameter, so its value is \<^verbatim>\<open>undefined\<close> and it is complete when it returns; a
  throw inside it rejects the promise \<^verbatim>\<open>acquire\<close> returns, which nothing handles.
\<close>

definition lock_exec :: "externals \<Rightarrow> events \<Rightarrow> lock_task \<Rightarrow> state \<Rightarrow> state" where
  "lock_exec ext this task s =
     (let s1 = emit [LockAcquired] (s\<lparr>lock_held := True\<rparr>);
          (r, s2) = runUserFn ext this ''Change'' (task_opts task) (task_fn task) s1;
          s3 = emit [LockReleased] s2
      in case r of Inl e \<Rightarrow> emit [UnhandledRejection e] s3 | Inr _ \<Rightarrow> s3)"

definition lock_done :: "externals \<Rightarrow> events \<Rightarrow> state \<Rightarrow> state" where
  "lock_done ext this s =
     (foldl (\<lambda>s' task. lock_exec ext this task s') (s\<lparr>lock_queue := []\<rparr>) (lock_queue s))
       \<lparr>lock_held := False\<rparr>"

definition lock_acquire :: "externals \<Rightarrow> events \<Rightarrow> lock_task \<Rightarrow> state \<Rightarrow> state" where
  "lock_acquire ext this task s =
     (if lock_held s then s\<lparr>lock_queue := lock_queue s @ [task]\<rparr>
      else lock_done ext this (lock_exec ext this task s))"

text \<open>
  The function \<^verbatim>\<open>onChange\<close> wraps in \<^verbatim>\<open>debounce\<close>: \<^verbatim>\<open>stats ?? fs.statSync(filePath)\<close>
  can throw; then the two log calls and the acquisition of the lock.
\<close>

definition change_handler ::
  "externals \<Rightarrow> events \<Rightarrow> string \<Rightarrow> fs_stats option \<Rightarrow> state \<Rightarrow> (js_error + unit) \<times> state" where
  "change_handler ext this path st s =
     (case (case st of Some x \<Rightarrow> Inr x | None \<Rightarrow> statSync ext path) of
        Inl e \<Rightarrow> (Inl e, s)
      | Inr x \<Rightarrow>
          (let s1 = emit [Logged (Log True ''Performing Action\<newline>'' ''log''),
                          Logged (Custom ''File Changed'' ''info'' (convertPath ext (root this) path))] s;
               opts = opts_of this path (Some x)
           in (Inr (), lock_acquire ext this
                         \<lparr>task_opts = opts, task_fn = action_of this ''change''\<rparr> s1)))"

subsection \<open>The event loop\<close>

text \<open>
  One turn of the event loop: a notification of the file watcher runs its handler to
  the end (for a change: the firing of the debounced function), or a user promise
  settles. A throw that leaves a handler is an uncaught exception.
\<close>

datatype loop_event =
    EvAdd string "fs_stats option"
  | EvAddDir string "fs_stats option"
  | EvUnlink string
  | EvUnlinkDir string
  | EvChange string "fs_stats option"
  | EvSettle nat settlement

definition uncaught :: "(js_error + unit) \<times> state \<Rightarrow> state" where
  "uncaught rs = (case fst rs of Inl e \<Rightarrow> emit [UncaughtException e] (snd rs) | Inr _ \<Rightarrow> snd rs)"

fun step :: "externals \<Rightarrow> events \<Rightarrow> state \<Rightarrow> loop_event \<Rightarrow> state" where
  "step ext this s (EvAdd p st) = uncaught (onAdd ext this p st s)"
| "step ext this s (EvAddDir p st) = uncaught (onAddDir ext this p st s)"
| "step ext this s (EvUnlink p) = uncaught (onUnlink ext this p s)"
| "step ext this s (EvUnlinkDir p) = uncaught (onUnlinkDir ext this p s)"
| "step ext this s (EvChange p st) = uncaught (change_handler ext this p st s)"
| "step ext this s (EvSettle n outcome) = settle n outcome s"

definition run_loop :: "externals \<Rightarrow> events \<Rightarrow> loop_event list \<Rightarrow> state \<Rightarrow> state" where
  "run_loop ext this evs s = foldl (step ext this) s evs"

text \<open>
  The constructor: \<^verbatim>\<open>chokidar.watch(opts.include, ...)\<close> starts the watch set, nothing
  has happened yet and the lock is free.
\<close>

definition initial :: "string list \<Rightarrow> (string \<times> string) list \<Rightarrow> state" where
  "initial incl e =
     \<lparr>env = e, watched = set incl, trace = [], pending = [], next_promise = 0,
      lock_held = False, lock_queue = []\<rparr>"

text \<open>The user callbacks whose body has started and whose promise has not settled.\<close>

definition in_flight :: "state \<Rightarrow> nat list" where
  "in_flight s = map fst (pending s)"

section \<open>The debouncer of the change handler\<close>

text \<open>
  Modelled from the spec: the debouncer (the package lodash.debounce is not among the
  sources), the leading and trailing hybrid with a maximum wait of the spec's
  section 4.3, as the package computes it: \<^verbatim>\<open>debounce(func, wait, options)\<close> keeps the
  arguments and time of the last call, the time of the last invocation of
  \<^verbatim>\<open>func\<close> and one timer. Times are in milliseconds; a timer is the time at which it
  expires.
\<close>

record debounce_options =
  opt_maxWait :: "int option"
  opt_leading :: "bool option"
  opt_trailing :: "bool option"

record debounce_params =
  wait :: int
  maxing :: bool
  maxWait :: int
  leading :: bool
  trailing :: bool

definition debounce_params_of :: "int \<Rightarrow> debounce_options \<Rightarrow> debounce_params" where
  "debounce_params_of w options =
     \<lparr>wait = w,
      maxing = (opt_maxWait options \<noteq> None),
      maxWait = (case opt_maxWait options of None \<Rightarrow> 0 | Some m \<Rightarrow> max m w),
      leading = (case opt_leading options of None \<Rightarrow> False | Some b \<Rightarrow> b),
      trailing = (case opt_trailing options of None \<Rightarrow> True | Some b \<Rightarrow> b)\<rparr>"

record 'a debounce_state =
  lastArgs :: "'a option"
  lastCallTime :: "int option"
  lastInvokeTime :: int
  timerId :: "int option"
  invoked :: "(int \<times> 'a option) list"

definition debounce_init :: "'a debounce_state" where
  "debounce_init =
     \<lparr>lastArgs = None, lastCallTime = None, lastInvokeTime = 0, timerId = None, invoked = []\<rparr>"

definition invokeFunc :: "int \<Rightarrow> 'a debounce_state \<Rightarrow> 'a debounce_state" where
  "invokeFunc time s =
     s\<lparr>lastArgs := None, lastInvokeTime := time, invoked := invoked s @ [(time, lastArgs s)]\<rparr>"

definition leadingEdge :: "debounce_params \<Rightarrow> int \<Rightarrow> 'a debounce_state \<Rightarrow> 'a debounce_state" where
  "leadingEdge p time s =
     (let s1 = s\<lparr>lastInvokeTime := time, timerId := Some (time + wait p)\<rparr>
      in if leading p then invokeFunc time s1 else s1)"

definition shouldInvoke :: "debounce_params \<Rightarrow> int \<Rightarrow> 'a debounce_state \<Rightarrow> bool" where
  "shouldInvoke p time s =
     (case lastCallTime s of
        None \<Rightarrow> True
      | Some lc \<Rightarrow>
          time - lc \<ge> wait p \<or> time - lc < 0 \<or>
          (maxing p \<and> time - lastInvokeTime s \<ge> maxWait p))"

definition remainingWait :: "debounce_params \<Rightarrow> int \<Rightarrow> 'a debounce_state \<Rightarrow> int" where
  "remainingWait p time s =
     (case lastCallTime s of
        None \<Rightarrow> 0
      | Some lc \<Rightarrow>
          (let timeWaiting = wait p - (time - lc)
           in if maxing p then min timeWaiting (maxWait p - (time - lastInvokeTime s))
              else timeWaiting))"

definition trailingEdge :: "debounce_params \<Rightarrow> int \<Rightarrow> 'a debounce_state \<Rightarrow> 'a debounce_state" where
  "trailingEdge p time s =
     (let s1 = s\<lparr>timerId := None\<rparr>
      in if trailing p \<and> lastArgs s1 \<noteq> None then invokeFunc time s1
         else s1\<lparr>lastArgs := None\<rparr>)"

definition timerExpired :: "debounce_params \<Rightarrow> int \<Rightarrow> 'a debounce_state \<Rightarrow> 'a debounce_state" where
  "timerExpired p time s =
     (if shouldInvoke p time s then trailingEdge p time s
      else s\<lparr>timerId := Some (time + remainingWait p time s)\<rparr>)"

definition debounced :: "debounce_params \<Rightarrow> int \<Rightarrow> 'a \<Rightarrow> 'a debounce_state \<Rightarrow> 'a debounce_state" where
  "debounced p time a s =
     (let isInvoking = shouldInvoke p time s;
          s1 = s\<lparr>lastArgs := Some a, lastCallTime := Some time\<rparr>
      in if isInvoking then
           (if timerId s1 = None then leadingEdge p time s1
            else if maxing p then invokeFunc time (s1\<lparr>timerId := Some (time + wait p)\<rparr>)
            else s1)
         else if timerId s1 = None then s1\<lparr>timerId := Some (time + wait p)\<rparr>
         else s1)"

text \<open>
  Time passes up to \<open>t\<close>: the timer runs each time it has expired. A restarted timer
  expires strictly later, so this ends.
\<close>

function run_timers :: "debounce_params \<Rightarrow> int \<Rightarrow> 'a debounce_state \<Rightarrow> 'a debounce_state" where
  "run_timers p t s =
     (case timerId s of
        None \<Rightarrow> s
      | Some d \<Rightarrow> if d \<le> t then run_timers p t (timerExpired p d s) else s)"
  by pat_completeness auto
termination
proof (relation "measure (\<lambda>(p, t, s). case timerId s of None \<Rightarrow> 0 | Some d \<Rightarrow> nat (t - d + 1))")
  show "wf (measure (\<lambda>(p, t, s). case timerId s of None \<Rightarrow> 0 | Some d \<Rightarrow> nat (t - d + 1)))"
    by simp
next
  fix p :: debounce_params and t :: int and s :: "'a debounce_state" and d :: int
  assume "timerId s = Some d" "d \<le> t"
  then show "((p, t, timerExpired p d s), (p, t, s))
      \<in> measure (\<lambda>(p, t, s). case timerId s of None \<Rightarrow> 0 | Some d \<Rightarrow> nat (t - d + 1))"
    by (auto simp: timerExpired_def trailingEdge_def invokeFunc_def shouldInvoke_def
        remainingWait_def Let_def split: option.splits)
qed

text \<open>
  No more calls: the timer runs until none is left. After a restart the timer expires
  when the wait since the last call, or the maximum wait since the last invocation, is
  over, so the next expiry is the trailing edge.
\<close>

function drain :: "debounce_params \<Rightarrow> 'a debounce_state \<Rightarrow> 'a debounce_state" where
  "drain p s = (case timerId s of None \<Rightarrow> s | Some d \<Rightarrow> drain p (timerExpired p d s))"
  by pat_completeness auto
termination
proof (relation "measure (\<lambda>(p, s). case timerId s of None \<Rightarrow> 0
                                   | Some d \<Rightarrow> if shouldInvoke p d s then 1 else 2)")
  show "wf (measure (\<lambda>(p, s). case timerId s of None \<Rightarrow> 0
                                   | Some d \<Rightarrow> if shouldInvoke p d s then 1 else 2))"
    by simp
next
  fix p :: debounce_params and s :: "'a debounce_state" and d :: int
  assume "timerId s = Some d"
  then show "((p, timerExpired p d s), (p, s))
      \<in> measure (\<lambda>(p, s). case timerId s of None \<Rightarrow> 0
                                   | Some d \<Rightarrow> if shouldInvoke p d s then 1 else 2)"
    by (auto simp: timerExpired_def trailingEdge_def invokeFunc_def shouldInvoke_def
        remainingWait_def Let_def split: option.splits)
qed

text \<open>
  A sequence of calls, each with its time and arguments, in the order of their times;
  the timers due by the time of a call run before it.
\<close>

fun feed ::
  "debounce_params \<Rightarrow> (int \<times> 'a) list \<Rightarrow> 'a debounce_state \<Rightarrow> 'a debounce_state" where
  "feed p [] s = s"
| "feed p ((t, a) # calls) s = feed p calls (debounced p t a (run_timers p t s))"

definition debounce_run :: "debounce_params \<Rightarrow> (int \<times> 'a) list \<Rightarrow> (int \<times> 'a option) list" where
  "debounce_run p calls = invoked (drain p (feed p calls debounce_init))"

text \<open>\<^verbatim>\<open>debounce(..., 2000, { maxWait: 3000, leading: true })\<close> of \<^verbatim>\<open>onChange\<close>.\<close>

definition onChange_params :: debounce_params where
  "onChange_params =
     debounce_params_of 2000
       \<lparr>opt_maxWait = Some 3000, opt_leading = Some True, opt_trailing = None\<rparr>"

subsection \<open>Bursts of calls\<close>

text \<open>The state after the leading call at \<open>t1\<close> and later calls before \<open>t1 + 2000\<close>.\<close>

definition in_window :: "int \<Rightarrow> 'a \<Rightarrow> int \<Rightarrow> 'a option \<Rightarrow> 'a debounce_state" where
  "in_window t1 a1 lc la =
     \<lparr>lastArgs = la, lastCallTime = Some lc, lastInvokeTime = t1,
      timerId = Some (t1 + 2000), invoked = [(t1, Some a1)]\<rparr>"

text \<open>
  What holds after the leading call at \<open>t1\<close> with arguments \<open>a1\<close> and any later calls,
  the last of them at \<open>tn\<close> with arguments \<open>al\<close>: the first invocation is that of the
  leading call; the arguments of the last call are either still kept, with a timer
  pending, or they are those of the last invocation.
\<close>

definition fed :: "int \<Rightarrow> 'a \<Rightarrow> int \<Rightarrow> 'a \<Rightarrow> bool \<Rightarrow> 'a debounce_state \<Rightarrow> bool" where
  "fed t1 a1 tn al twice s \<longleftrightarrow>
     invoked s \<noteq> [] \<and> hd (invoked s) = (t1, Some a1) \<and> lastCallTime s = Some tn \<and>
     (\<forall>d. timerId s = Some d \<longrightarrow> tn < d) \<and>
     (case lastArgs s of
        Some a \<Rightarrow> a = al \<and> timerId s \<noteq> None
      | None \<Rightarrow>
          snd (last (invoked s)) = Some al \<and> tn \<le> fst (last (invoked s)) \<and>
          (twice \<longrightarrow> 2 \<le> length (invoked s)))"

text \<open>
  Calls that keep arriving after a call at \<open>lc\<close>: in the order of their times, each
  less than the wait of 2000 after the one before.
\<close>

fun keeps_arriving :: "int \<Rightarrow> (int \<times> 'a) list \<Rightarrow> bool" where
  "keeps_arriving lc [] = True"
| "keeps_arriving lc ((t, a) # calls) = (lc \<le> t \<and> t < lc + 2000 \<and> keeps_arriving t calls)"

text \<open>The arguments of the latest call before the time \<open>T\<close>, \<open>la\<close> when there is none.\<close>

fun latest_before :: "int \<Rightarrow> 'a \<Rightarrow> (int \<times> 'a) list \<Rightarrow> 'a" where
  "latest_before T la [] = la"
| "latest_before T la ((t, a) # calls) = (if t < T then latest_before T a calls else la)"

text \<open>
  The state between the leading invocation at \<open>t1\<close> and the next one, while calls keep
  arriving: the arguments of the last call are kept and the timer is due by the
  maximum wait.
\<close>

definition period :: "int \<Rightarrow> 'a \<Rightarrow> int \<Rightarrow> 'a \<Rightarrow> 'a debounce_state \<Rightarrow> bool" where
  "period t1 a1 lc la s \<longleftrightarrow>
     lastArgs s = Some la \<and> lastCallTime s = Some lc \<and> lastInvokeTime s = t1 \<and>
     invoked s = [(t1, Some a1)] \<and> t1 \<le> lc \<and>
     (\<exists>d. timerId s = Some d \<and> lc < d \<and> d \<le> t1 + 3000)"

section \<open>Example inputs\<close>

definition pkg_core :: package where
  "pkg_core = \<lparr>dir = ''/repo/packages/core'', packageJson = \<lparr>name = ''@acme/core''\<rparr>\<rparr>"

definition pkg_root :: package where
  "pkg_root = \<lparr>dir = ''/repo'', packageJson = \<lparr>name = ''monorepo''\<rparr>\<rparr>"

definition ext0 :: externals where
  "ext0 =
     \<lparr>convertPath = (\<lambda>r p. drop (length r + 1) p),
      run_child = (\<lambda>c. \<lparr>spawn_failure = None, wrote_stderr = []\<rparr>),
      statSync = (\<lambda>p. Inr (Stats 0))\<rparr>"

text \<open>A command that starts, writes \<open>boom\<close> to its stderr and ends.\<close>

definition ext_fail :: externals where
  "ext_fail = ext0\<lparr>run_child := (\<lambda>c. \<lparr>spawn_failure = None, wrote_stderr = ''boom''\<rparr>)\<rparr>"

text \<open>A command that cannot be started.\<close>

definition ext_enoent :: externals where
  "ext_enoent = ext0\<lparr>run_child := (\<lambda>c. \<lparr>spawn_failure = Some ''ENOENT'', wrote_stderr = []\<rparr>)\<rparr>"

definition cfg_spawn :: InternalConfig where
  "cfg_spawn =
     \<lparr>cfg_prefix = ''acme'', cfg_actions = None, cfg_include = [''src''],
      cfg_runScripts = [''echo'', ''hi''], cfg_noChildProcessLogs = False\<rparr>"

definition cfg_async :: InternalConfig where
  "cfg_async =
     cfg_spawn\<lparr>cfg_actions :=
       Some [(''add'', UserFn 1 True), (''change'', UserFn 2 True)]\<rparr>"

definition this_spawn :: events where
  "this_spawn = \<lparr>root = ''/repo'', config = cfg_spawn, packages = [pkg_core]\<rparr>"

definition this_async :: events where
  "this_async = \<lparr>root = ''/repo'', config = cfg_async, packages = [pkg_core]\<rparr>"

definition opts0 :: ActionOpts where
  "opts0 =
     \<lparr>currentPkg = ''core'', packagePath = ''/repo/packages/core'',
      filePath = ''/repo/packages/core/a.ts'', stats = None\<rparr>"

definition state0 :: state where
  "state0 = initial [''src''] []"




section \<open>Package resolution\<close>

lemma js_includes_sublist: "js_includes s sub = sublist sub s"
  by (induction s) (auto simp: sublist_Cons_right)

lemma js_includes_iff: "js_includes s sub \<longleftrightarrow> (\<exists>pre suf. s = pre @ sub @ suf)"
  by (simp add: js_includes_sublist sublist_def)

lemma split_on_not_Nil: "split_on sep s \<noteq> []"
  by (induction s) (auto split: list.splits)

lemma split_on_plain: "sep \<notin> set w \<Longrightarrow> split_on sep w = [w]"
  by (induction w) auto

lemma split_on_snoc:
  "sep \<notin> set w \<Longrightarrow> split_on sep (pre @ sep # w) = split_on sep pre @ [w]"
  by (induction pre) (auto simp: split_on_plain split_on_not_Nil split: list.splits)

lemma split_on_no_sep: "w \<in> set (split_on sep s) \<Longrightarrow> sep \<notin> set w"
  by (induction s arbitrary: w) (auto split: if_splits list.splits)

lemma dir_basename_no_slash: "CHR ''/'' \<notin> set (dir_basename d)"
  unfolding dir_basename_def
  by (rule split_on_no_sep [of _ _ d]) (simp add: split_on_not_Nil)

lemma dir_basename_suffix:
  "d = dir_basename d \<or> (\<exists>pre. d = pre @ ''/'' @ dir_basename d)"
proof (cases "CHR ''/'' \<in> set d")
  case False
  then show ?thesis by (simp add: dir_basename_def split_on_plain)
next
  case True
  then obtain pre w where "d = pre @ CHR ''/'' # w" "CHR ''/'' \<notin> set w"
    by (auto dest: split_list_last)
  then show ?thesis by (auto simp: dir_basename_def split_on_snoc)
qed

lemma getPackage_snoc:
  "getPackage (pkgs @ [q]) p =
     (if js_includes p (dir q)
      then \<lparr>currentPkg = dir_basename (dir q), packagePath = dir q\<rparr>
      else getPackage pkgs p)"
  by (simp add: getPackage_def)

lemma getPackage_no_match:
  "matching pkgs p = [] \<Longrightarrow> getPackage pkgs p = \<lparr>currentPkg = [], packagePath = []\<rparr>"
proof (induction pkgs rule: rev_induct)
  case Nil
  show ?case by (simp add: getPackage_def)
next
  case (snoc q pkgs)
  then show ?case
    by (simp add: getPackage_snoc matching_def split: if_splits)
qed

lemma getPackage_last_match:
  "matching pkgs p \<noteq> [] \<Longrightarrow>
   getPackage pkgs p =
     \<lparr>currentPkg = dir_basename (dir (last (matching pkgs p))),
      packagePath = dir (last (matching pkgs p))\<rparr>"
proof (induction pkgs rule: rev_induct)
  case Nil
  then show ?case by (simp add: matching_def)
next
  case (snoc q pkgs)
  then show ?case
    by (auto simp: getPackage_snoc matching_def)
qed

lemma set_matching:
  "q \<in> set (matching pkgs p) \<longleftrightarrow> q \<in> set pkgs \<and> (\<exists>pre suf. p = pre @ dir q @ suf)"
  by (auto simp: matching_def js_includes_iff)

text \<open>
  Claim C3, as the code has it. A path is contained in a package when the package's
  directory occurs in it as a substring. When exactly one package contains the path,
  \<open>getPackage\<close> returns that package's directory and, as the name, the last
  \<open>/\<close>-separated piece of the directory (not the name the manifest declares); when
  none does, it returns two empty strings; when several do, the last one in list order
  wins. \<open>getPackage\<close> is a total function of the package list and the path.
\<close>

theorem getPackage_resolves:
  "(matching pkgs p = [q] \<longrightarrow>
      getPackage pkgs p = \<lparr>currentPkg = dir_basename (dir q), packagePath = dir q\<rparr>) \<and>
   (matching pkgs p = [] \<longrightarrow> getPackage pkgs p = \<lparr>currentPkg = [], packagePath = []\<rparr>) \<and>
   (matching pkgs p \<noteq> [] \<longrightarrow>
      getPackage pkgs p =
        \<lparr>currentPkg = dir_basename (dir (last (matching pkgs p))),
         packagePath = dir (last (matching pkgs p))\<rparr>) \<and>
   (q' \<in> set (matching pkgs p) \<longleftrightarrow>
      q' \<in> set pkgs \<and> (\<exists>pre suf. p = pre @ dir q' @ suf))"
  using getPackage_no_match [of pkgs p] getPackage_last_match [of pkgs p] set_matching [of q' pkgs p]
  by auto

lemma ex_matching:
  "matching [pkg_core, pkg_root] ''/repo/packages/core/a.ts'' = [pkg_core, pkg_root]"
  "matching [pkg_core] ''/repo/packages/core/a.ts'' = [pkg_core]"
  "matching [pkg_core, pkg_root] ''/tmp/a.ts'' = []"
  by (simp_all add: matching_def pkg_core_def pkg_root_def)

text \<open>The three cases of C3 at a nested pair of packages.\<close>

theorem getPackage_resolves_witness:
  "getPackage [pkg_core] ''/repo/packages/core/a.ts''
     = \<lparr>currentPkg = ''core'', packagePath = ''/repo/packages/core''\<rparr> \<and>
   getPackage [pkg_core, pkg_root] ''/tmp/a.ts'' = \<lparr>currentPkg = [], packagePath = []\<rparr> \<and>
   getPackage [pkg_core, pkg_root] ''/repo/packages/core/a.ts''
     = \<lparr>currentPkg = ''repo'', packagePath = ''/repo''\<rparr>"
  using getPackage_resolves [of "[pkg_core]" "''/repo/packages/core/a.ts''" pkg_core]
    getPackage_resolves [of "[pkg_core, pkg_root]" "''/tmp/a.ts''"]
    getPackage_resolves [of "[pkg_core, pkg_root]" "''/repo/packages/core/a.ts''"]
  by (simp add: ex_matching) (simp add: pkg_core_def pkg_root_def dir_basename_def)

text \<open>
  C3 as stated fails: the only package containing the path declares the name
  \<open>@acme/core\<close>, and the name returned is \<open>core\<close>.
\<close>

theorem getPackage_declared_name_counterexample:
  "matching [pkg_core] ''/repo/packages/core/a.ts'' = [pkg_core] \<and>
   currentPkg (getPackage [pkg_core] ''/repo/packages/core/a.ts'') \<noteq> name (packageJson pkg_core)"
  by (simp add: matching_def getPackage_def pkg_core_def dir_basename_def)

text \<open>
  Claim C10: when a package matches, the reported \<open>currentPkg\<close> is the last
  \<open>/\<close>-separated piece of the matched package's directory: it holds no \<open>/\<close> and the
  directory is that piece, or ends with \<open>/\<close> and that piece. It is the declared name
  of the manifest exactly when that piece equals the declared name.
\<close>

theorem currentPkg_is_basename:
  "matching pkgs p \<noteq> [] \<Longrightarrow>
   (let q = last (matching pkgs p); r = getPackage pkgs p
    in currentPkg r = last (split_on CHR ''/'' (dir q)) \<and>
       CHR ''/'' \<notin> set (currentPkg r) \<and>
       (dir q = currentPkg r \<or> (\<exists>pre. dir q = pre @ ''/'' @ currentPkg r)) \<and>
       (currentPkg r = name (packageJson q) \<longleftrightarrow> dir_basename (dir q) = name (packageJson q)))"
  using dir_basename_suffix [of "dir (last (matching pkgs p))"]
  by (simp add: getPackage_last_match dir_basename_no_slash Let_def) (simp add: dir_basename_def)

text \<open>C10 at a package whose declared name differs from its directory's last piece.\<close>

theorem currentPkg_is_basename_witness:
  "currentPkg (getPackage [pkg_core] ''/repo/packages/core/a.ts'') = ''core'' \<and>
   name (packageJson pkg_core) = ''@acme/core''"
  using currentPkg_is_basename [of "[pkg_core]" "''/repo/packages/core/a.ts''"]
  by (simp add: ex_matching Let_def) (simp add: pkg_core_def)

section \<open>The action runner's two branches\<close>

lemma present_async_iff: "present_async fn \<longleftrightarrow> (\<exists>f. fn = Some f \<and> isAsync f)"
  by (cases fn) (simp_all add: present_async_def async_of_def)

lemma runUserFn_async:
  "fn = Some f \<Longrightarrow> isAsync f \<Longrightarrow>
   runUserFn ext this ev opts fn s =
     (Inr (),
      emit [Called (next_promise s) f opts]
        (s\<lparr>pending := pending s @ [(next_promise s, ev, convertPath ext (root this) (filePath opts))],
           next_promise := Suc (next_promise s)\<rparr>))"
  by (simp add: runUserFn_def async_of_def Let_def)

text \<open>
  Neither \<^verbatim>\<open>stdio\<close> option of the runner makes stderr a pipe to the parent, so the
  result of its spawn never carries a stderr.
\<close>

lemma stderr_slot_stdio_of: "stderr_slot (stdio_of cfg) \<noteq> Pipe"
  by (simp add: stderr_slot_def stdio_of_def)

lemma spawn_sync_spawn_of:
  "spawn_sync ext (spawn_of cfg opts e) =
     (case cfg_runScripts cfg of
        [] \<Rightarrow> Inl (SpawnError ''ERR_INVALID_ARG_TYPE'')
      | c # cs \<Rightarrow>
          Inr \<lparr>error = spawn_failure (run_child ext (spawn_of cfg opts e)), stderr = None\<rparr>)"
  using stderr_slot_stdio_of [of cfg]
  by (simp add: spawn_sync_def spawn_of_def split: list.splits)

lemma runUserFn_spawn:
  "\<not> present_async fn \<Longrightarrow>
   runUserFn ext this ev opts fn s =
     (let call = spawn_of (config this) opts (AList.update ''FORCE_COLOR'' ''true'' (env s));
          s2 = emit [Spawned call] (s\<lparr>env := AList.update ''FORCE_COLOR'' ''true'' (env s)\<rparr>)
      in case cfg_runScripts (config this) of
           [] \<Rightarrow> (Inl (SpawnError ''ERR_INVALID_ARG_TYPE''), s2)
         | c # cs \<Rightarrow>
             (case spawn_failure (run_child ext call) of
                Some e \<Rightarrow> (Inl (SpawnError e), s2)
              | None \<Rightarrow> (Inr (), EndLogger ev (convertPath ext (root this) (filePath opts)) s2)))"
  by (simp add: runUserFn_def present_async_def Let_def spawn_sync_spawn_of
      split: list.splits option.splits)

lemma find_snoc_fresh: "find P xs = None \<Longrightarrow> P x \<Longrightarrow> find P (xs @ [x]) = Some x"
  by (induction xs) (auto split: if_splits)

lemma settle_fresh:
  "n \<notin> set (in_flight s) \<Longrightarrow>
   settle n outcome (emit es (s\<lparr>pending := pending s @ [(n, ev, rel)], next_promise := k\<rparr>)) =
     (let s1 = emit (es @ [Settled n outcome]) (s\<lparr>next_promise := k\<rparr>)
      in case outcome of
           Fulfilled \<Rightarrow> EndLogger ev rel s1
         | Rejected reason \<Rightarrow> emit [UnhandledRejection (CallbackError reason)] s1)"
proof -
  assume fresh: "n \<notin> set (in_flight s)"
  have nm: "m \<noteq> n" if "(m, a, b) \<in> set (pending s)" for m a b
    using fresh that by (force simp: in_flight_def)
  have none: "find (\<lambda>(m, _, _). m = n) (pending s) = None"
    using nm by (auto simp: find_None_iff)
  have same: "filter (\<lambda>(m, _, _). m \<noteq> n) (pending s) = pending s"
    using nm by (auto simp: filter_id_conv)
  have found: "find (\<lambda>(m, _, _). m = n) (pending s @ [(n, ev, rel)]) = Some (n, ev, rel)"
    using none by (simp add: find_snoc_fresh)
  show ?thesis
    by (simp add: settle_def emit_def found same Let_def split: settlement.splits)
qed

lemma runner_async:
  assumes "fn = Some f" "isAsync f" "next_promise s \<notin> set (in_flight s)"
  shows "fst (runUserFn ext this ev opts fn s) = Inr ()"
    and "trace (snd (runUserFn ext this ev opts fn s)) = trace s @ [Called (next_promise s) f opts]"
    and "in_flight (snd (runUserFn ext this ev opts fn s)) = in_flight s @ [next_promise s]"
    and "trace (settle (next_promise s) Fulfilled (snd (runUserFn ext this ev opts fn s))) =
          trace s @
            [Called (next_promise s) f opts, Settled (next_promise s) Fulfilled,
             Logged (Log False ''Action Completed\<newline>'' ''log''),
             Logged (Custom ev ''success'' (convertPath ext (root this) (filePath opts)))]"
    and "in_flight (settle (next_promise s) Fulfilled (snd (runUserFn ext this ev opts fn s)))
          = in_flight s"
  using assms
  by (simp_all add: runUserFn_async settle_fresh Let_def)
    (simp_all add: emit_def in_flight_def EndLogger_def completed_entry_def)

lemma runner_spawn:
  assumes "\<not> present_async fn"
  shows "\<exists>rest. trace (snd (runUserFn ext this ev opts fn s)) =
           trace s @
             Spawned (spawn_of (config this) opts (AList.update ''FORCE_COLOR'' ''true'' (env s))) # rest"
    and "in_flight (snd (runUserFn ext this ev opts fn s)) = in_flight s"
    and "cfg_runScripts (config this) \<noteq> [] \<Longrightarrow>
         spawn_failure (run_child ext
           (spawn_of (config this) opts (AList.update ''FORCE_COLOR'' ''true'' (env s)))) = None \<Longrightarrow>
         fst (runUserFn ext this ev opts fn s) = Inr () \<and>
         trace (snd (runUserFn ext this ev opts fn s)) =
           trace s @
             [Spawned (spawn_of (config this) opts (AList.update ''FORCE_COLOR'' ''true'' (env s))),
              Logged (Log False ''Action Completed\<newline>'' ''log''),
              Logged (Custom ev ''success'' (convertPath ext (root this) (filePath opts)))]"
  using assms
  by (simp_all add: runUserFn_spawn Let_def emit_def EndLogger_def in_flight_def
      completed_entry_def split: list.splits option.splits)


lemma settle_last:
  assumes "pending s' = ps @ [(n, ev, rel)]" "n \<notin> fst ` set ps"
  shows "trace (settle n Fulfilled s') =
           trace s' @
             [Settled n Fulfilled, Logged (Log False ''Action Completed\<newline>'' ''log''),
              Logged (Custom ev ''success'' rel)]"
proof -
  have nm: "m \<noteq> n" if "(m, a, b) \<in> set ps" for m a b
    using assms(2) that by force
  have "find (\<lambda>(m, _, _). m = n) ps = None"
    using nm by (auto simp: find_None_iff)
  then have "find (\<lambda>(m, _, _). m = n) (pending s') = Some (n, ev, rel)"
    using assms(1) by (simp add: find_snoc_fresh)
  then show ?thesis
    by (simp add: settle_def emit_def EndLogger_def completed_entry_def Let_def)
qed

lemma simple_async:
  assumes "act = Some f" "isAsync f" "next_promise s \<notin> set (in_flight s)"
  shows "fst (runUserFn ext this tag ctx act (emit [w] (s\<lparr>watched := W\<rparr>))) = Inr ()"
    and "trace (settle (next_promise s) Fulfilled
               (snd (runUserFn ext this tag ctx act (emit [w] (s\<lparr>watched := W\<rparr>))))) =
          trace s @
            [w, Called (next_promise s) f ctx, Settled (next_promise s) Fulfilled,
             Logged (Log False ''Action Completed\<newline>'' ''log''),
             Logged (Custom tag ''success'' (convertPath ext (root this) (filePath ctx)))]"
proof -
  let ?s = "emit [w] (s\<lparr>watched := W\<rparr>)"
  have same: "next_promise ?s = next_promise s" "in_flight ?s = in_flight s"
    "trace ?s = trace s @ [w]"
    by (simp_all add: emit_def in_flight_def)
  with assms(3) have fresh: "next_promise ?s \<notin> set (in_flight ?s)" by simp
  from runner_async(1) [OF assms(1,2) fresh]
  show "fst (runUserFn ext this tag ctx act ?s) = Inr ()" .
  from runner_async(4) [OF assms(1,2) fresh, where ext = ext and this = this and ev = tag
      and opts = ctx] same
  show "trace (settle (next_promise s) Fulfilled (snd (runUserFn ext this tag ctx act ?s))) =
          trace s @
            [w, Called (next_promise s) f ctx, Settled (next_promise s) Fulfilled,
             Logged (Log False ''Action Completed\<newline>'' ''log''),
             Logged (Custom tag ''success'' (convertPath ext (root this) (filePath ctx)))]"
    by simp
qed

lemma simple_spawn:
  assumes "\<not> present_async act" "cfg_runScripts (config this) \<noteq> []"
    "spawn_failure (run_child ext
       (spawn_of (config this) ctx (AList.update ''FORCE_COLOR'' ''true'' (env s)))) = None"
  shows "fst (runUserFn ext this tag ctx act (emit [w] (s\<lparr>watched := W\<rparr>))) = Inr () \<and>
         trace (snd (runUserFn ext this tag ctx act (emit [w] (s\<lparr>watched := W\<rparr>)))) =
           trace s @
             [w, Spawned (spawn_of (config this) ctx (AList.update ''FORCE_COLOR'' ''true'' (env s))),
              Logged (Log False ''Action Completed\<newline>'' ''log''),
              Logged (Custom tag ''success'' (convertPath ext (root this) (filePath ctx)))]"
  using runner_spawn(3) [OF assms(1,2), where ext = ext and opts = ctx
      and s = "emit [w] (s\<lparr>watched := W\<rparr>)" and ev = tag] assms(3)
  by (simp add: emit_def)

lemma runUserFn_lock:
  "lock_held (snd (runUserFn ext this ev opts fn s)) = lock_held s"
  "lock_queue (snd (runUserFn ext this ev opts fn s)) = lock_queue s"
  by (simp_all add: runUserFn_def Let_def emit_def EndLogger_def split: option.splits sum.splits)

lemma lock_exec_queue: "lock_queue (lock_exec ext this task s) = lock_queue s"
proof -
  let ?s1 = "emit [LockAcquired] (s\<lparr>lock_held := True\<rparr>)"
  obtain r s2 where eq: "runUserFn ext this ''Change'' (task_opts task) (task_fn task) ?s1 = (r, s2)"
    by (cases "runUserFn ext this ''Change'' (task_opts task) (task_fn task) ?s1")
  from runUserFn_lock(2) [of ext this "''Change''" "task_opts task" "task_fn task" ?s1] eq
  have "lock_queue s2 = lock_queue s"
    by (simp add: emit_def)
  with eq show ?thesis
    by (simp add: lock_exec_def Let_def emit_def split: sum.splits)
qed

text \<open>The change handler when the lock is free, as every turn finds it.\<close>

lemma change_handler_free:
  assumes "\<not> lock_held s" "lock_queue s = []"
    "(case st of Some x \<Rightarrow> Inr x | None \<Rightarrow> statSync ext p) = Inr x"
  shows "change_handler ext this p st s =
    (Inr (),
     (lock_exec ext this
        \<lparr>task_opts = opts_of this p (Some x), task_fn = action_of this ''change''\<rparr>
        (emit [Logged (Log True ''Performing Action\<newline>'' ''log''),
               Logged (Custom ''File Changed'' ''info'' (convertPath ext (root this) p))] s))
       \<lparr>lock_held := False\<rparr>)"
  using assms
  by (simp add: change_handler_def Let_def lock_acquire_def lock_done_def lock_exec_queue emit_def)

lemma change_async:
  assumes "\<not> lock_held s" "lock_queue s = []"
    "(case st of Some x \<Rightarrow> Inr x | None \<Rightarrow> statSync ext p) = Inr x"
    "action_of this ''change'' = Some f" "isAsync f" "next_promise s \<notin> set (in_flight s)"
  shows "fst (change_handler ext this p st s) = Inr () \<and>
    trace (settle (next_promise s) Fulfilled (snd (change_handler ext this p st s))) =
      trace s @
        [Logged (Log True ''Performing Action\<newline>'' ''log''),
         Logged (Custom ''File Changed'' ''info'' (convertPath ext (root this) p)),
         LockAcquired,
         Called (next_promise s) f (opts_of this p (Some x)),
         LockReleased,
         Settled (next_promise s) Fulfilled,
         Logged (Log False ''Action Completed\<newline>'' ''log''),
         Logged (Custom ''Change'' ''success'' (convertPath ext (root this) p))]"
proof -
  let ?fin = "snd (change_handler ext this p st s)"
  have fin: "pending ?fin = pending s @ [(next_promise s, ''Change'', convertPath ext (root this) p)]"
    "trace ?fin = trace s @
        [Logged (Log True ''Performing Action\<newline>'' ''log''),
         Logged (Custom ''File Changed'' ''info'' (convertPath ext (root this) p)),
         LockAcquired,
         Called (next_promise s) f (opts_of this p (Some x)),
         LockReleased]"
    using assms(4,5)
    by (simp_all add: change_handler_free [OF assms(1-3)] lock_exec_def runUserFn_async
        Let_def emit_def opts_of_def)
  have "next_promise s \<notin> fst ` set (pending s)"
    using assms(6) by (simp add: in_flight_def)
  from settle_last [OF fin(1) this] fin(2) change_handler_free [OF assms(1-3)]
  show ?thesis by simp
qed

lemma change_spawn:
  assumes "\<not> lock_held s" "lock_queue s = []"
    "(case st of Some x \<Rightarrow> Inr x | None \<Rightarrow> statSync ext p) = Inr x"
    "\<not> present_async (action_of this ''change'')" "cfg_runScripts (config this) \<noteq> []"
    "spawn_failure (run_child ext
       (spawn_of (config this) (opts_of this p (Some x))
          (AList.update ''FORCE_COLOR'' ''true'' (env s)))) = None"
  shows "fst (change_handler ext this p st s) = Inr () \<and>
    trace (snd (change_handler ext this p st s)) =
      trace s @
        [Logged (Log True ''Performing Action\<newline>'' ''log''),
         Logged (Custom ''File Changed'' ''info'' (convertPath ext (root this) p)),
         LockAcquired,
         Spawned (spawn_of (config this) (opts_of this p (Some x))
                    (AList.update ''FORCE_COLOR'' ''true'' (env s))),
         Logged (Log False ''Action Completed\<newline>'' ''log''),
         Logged (Custom ''Change'' ''success'' (convertPath ext (root this) p)),
         LockReleased]"
  using assms(5,6)
  by (simp add: change_handler_free [OF assms(1-3)] lock_exec_def runUserFn_spawn [OF assms(4)]
      Let_def emit_def EndLogger_def completed_entry_def opts_of_def
      split: list.splits)


lemma opts_of_eq:
  "opts_of this p st =
     \<lparr>currentPkg = currentPkg (getPackage (packages this) p),
      packagePath = packagePath (getPackage (packages this) p), filePath = p, stats = st\<rparr>"
  by (simp add: opts_of_def Let_def)

lemma branch_call:
  "(fn = Some f \<and> isAsync f \<and> next_promise s \<notin> set (in_flight s) \<longrightarrow>
      (let n = next_promise s;
           rel = convertPath ext (root this) (filePath opts);
           rs = runUserFn ext this ev opts fn s
       in fst rs = Inr () \<and>
          trace (snd rs) = trace s @ [Called n f opts] \<and>
          in_flight (snd rs) = in_flight s @ [n] \<and>
          trace (settle n Fulfilled (snd rs)) =
            trace (snd rs) @
              [Settled n Fulfilled, Logged (Log False ''Action Completed\<newline>'' ''log''),
               Logged (Custom ev ''success'' rel)] \<and>
          in_flight (settle n Fulfilled (snd rs)) = in_flight s))"
  using runner_async [where fn = fn and f = f and s = s and ext = ext and this = this
      and ev = ev and opts = opts]
  by (simp add: Let_def)

lemma branch_spawn:
  "(\<not> present_async fn \<longrightarrow>
      (let call = spawn_of (config this) opts (AList.update ''FORCE_COLOR'' ''true'' (env s));
           rel = convertPath ext (root this) (filePath opts);
           rs = runUserFn ext this ev opts fn s
       in (\<exists>rest. trace (snd rs) = trace s @ Spawned call # rest) \<and>
          (case command call of None \<Rightarrow> [] | Some c \<Rightarrow> [c]) @ args call
            = cfg_runScripts (config this) \<and>
          cwd call = packagePath opts \<and>
          in_flight (snd rs) = in_flight s \<and>
          (cfg_runScripts (config this) \<noteq> [] \<and> spawn_failure (run_child ext call) = None \<longrightarrow>
             fst rs = Inr () \<and>
             trace (snd rs) =
               trace s @
                 [Spawned call, Logged (Log False ''Action Completed\<newline>'' ''log''),
                  Logged (Custom ev ''success'' rel)])))"
proof
  assume na: "\<not> present_async fn"
  have "(case command (spawn_of (config this) opts e) of None \<Rightarrow> [] | Some c \<Rightarrow> [c])
          @ args (spawn_of (config this) opts e) = cfg_runScripts (config this)"
    "cwd (spawn_of (config this) opts e) = packagePath opts" for e
    by (simp_all add: spawn_of_def split: list.splits)
  with runner_spawn [OF na, where ext = ext and this = this and ev = ev and opts = opts and s = s]
  show "let call = spawn_of (config this) opts (AList.update ''FORCE_COLOR'' ''true'' (env s));
           rel = convertPath ext (root this) (filePath opts);
           rs = runUserFn ext this ev opts fn s
       in (\<exists>rest. trace (snd rs) = trace s @ Spawned call # rest) \<and>
          (case command call of None \<Rightarrow> [] | Some c \<Rightarrow> [c]) @ args call
            = cfg_runScripts (config this) \<and>
          cwd call = packagePath opts \<and>
          in_flight (snd rs) = in_flight s \<and>
          (cfg_runScripts (config this) \<noteq> [] \<and> spawn_failure (run_child ext call) = None \<longrightarrow>
             fst rs = Inr () \<and>
             trace (snd rs) =
               trace s @
                 [Spawned call, Logged (Log False ''Action Completed\<newline>'' ''log''),
                  Logged (Custom ev ''success'' rel)])"
    by (simp add: Let_def)
qed

lemma dispatch_simple:
  "((h, tag, key, st', w) \<in>
        {(onAdd ext this p st, ''Add'', ''add'', st, WatchAdd p),
         (onAddDir ext this p st, ''Add Dir'', ''addDir'', st, WatchAdd p),
         (onUnlink ext this p, ''Remove'', ''unlink'', None, Unwatch p),
         (onUnlinkDir ext this p, ''Remove Dir'', ''unlinkDir'', None, Unwatch p)} \<longrightarrow>
      (let ctx = \<lparr>currentPkg = currentPkg (getPackage (packages this) p),
                  packagePath = packagePath (getPackage (packages this) p),
                  filePath = p, stats = st'\<rparr>;
           rel = convertPath ext (root this) p;
           n = next_promise s;
           call = spawn_of (config this) ctx (AList.update ''FORCE_COLOR'' ''true'' (env s))
       in (action_of this key = Some g \<and> isAsync g \<and> n \<notin> set (in_flight s) \<longrightarrow>
             fst (h s) = Inr () \<and>
             trace (settle n Fulfilled (snd (h s))) =
               trace s @
                 [w, Called n g ctx, Settled n Fulfilled, Logged (Log False ''Action Completed\<newline>'' ''log''),
                  Logged (Custom tag ''success'' rel)]) \<and>
          (\<not> present_async (action_of this key) \<and> cfg_runScripts (config this) \<noteq> [] \<and>
           spawn_failure (run_child ext call) = None \<longrightarrow>
             fst (h s) = Inr () \<and>
             cwd call = packagePath (getPackage (packages this) p) \<and>
             trace (snd (h s)) =
               trace s @
                 [w, Spawned call, Logged (Log False ''Action Completed\<newline>'' ''log''),
                  Logged (Custom tag ''success'' rel)])))"
proof
  assume "(h, tag, key, st', w) \<in>
        {(onAdd ext this p st, ''Add'', ''add'', st, WatchAdd p),
         (onAddDir ext this p st, ''Add Dir'', ''addDir'', st, WatchAdd p),
         (onUnlink ext this p, ''Remove'', ''unlink'', None, Unwatch p),
         (onUnlinkDir ext this p, ''Remove Dir'', ''unlinkDir'', None, Unwatch p)}"
  then have "\<exists>W. h s = runUserFn ext this tag (opts_of this p st') (action_of this key)
                        (emit [w] (s\<lparr>watched := W\<rparr>))"
    by (auto simp: onAdd_def onAddDir_def onUnlink_def onUnlinkDir_def watcher_add_def
        watcher_unwatch_def)
  then obtain W where h: "h s = runUserFn ext this tag (opts_of this p st') (action_of this key)
                        (emit [w] (s\<lparr>watched := W\<rparr>))" ..
  have cwd: "cwd (spawn_of (config this) (opts_of this p st') e)
               = packagePath (getPackage (packages this) p)" for e
    by (simp add: spawn_of_def opts_of_eq)
  show "let ctx = \<lparr>currentPkg = currentPkg (getPackage (packages this) p),
                  packagePath = packagePath (getPackage (packages this) p),
                  filePath = p, stats = st'\<rparr>;
           rel = convertPath ext (root this) p;
           n = next_promise s;
           call = spawn_of (config this) ctx (AList.update ''FORCE_COLOR'' ''true'' (env s))
       in (action_of this key = Some g \<and> isAsync g \<and> n \<notin> set (in_flight s) \<longrightarrow>
             fst (h s) = Inr () \<and>
             trace (settle n Fulfilled (snd (h s))) =
               trace s @
                 [w, Called n g ctx, Settled n Fulfilled, Logged (Log False ''Action Completed\<newline>'' ''log''),
                  Logged (Custom tag ''success'' rel)]) \<and>
          (\<not> present_async (action_of this key) \<and> cfg_runScripts (config this) \<noteq> [] \<and>
           spawn_failure (run_child ext call) = None \<longrightarrow>
             fst (h s) = Inr () \<and>
             cwd call = packagePath (getPackage (packages this) p) \<and>
             trace (snd (h s)) =
               trace s @
                 [w, Spawned call, Logged (Log False ''Action Completed\<newline>'' ''log''),
                  Logged (Custom tag ''success'' rel)])"
    unfolding Let_def opts_of_eq [symmetric] h
    using simple_async [where act = "action_of this key" and f = g and s = s and ext = ext
          and this = this and tag = tag and ctx = "opts_of this p st'" and w = w and W = W]
      simple_spawn [where act = "action_of this key" and this = this and ext = ext
          and ctx = "opts_of this p st'" and s = s and tag = tag and w = w and W = W] cwd
    by (simp add: opts_of_eq)
qed

lemma dispatch_change:
  "(\<not> lock_held s \<and> lock_queue s = [] \<and>
    (case st of Some y \<Rightarrow> Inr y | None \<Rightarrow> statSync ext p) = Inr x \<longrightarrow>
      (let ctx = \<lparr>currentPkg = currentPkg (getPackage (packages this) p),
                  packagePath = packagePath (getPackage (packages this) p),
                  filePath = p, stats = Some x\<rparr>;
           rel = convertPath ext (root this) p;
           n = next_promise s;
           call = spawn_of (config this) ctx (AList.update ''FORCE_COLOR'' ''true'' (env s));
           rs = change_handler ext this p st s
       in (action_of this ''change'' = Some g \<and> isAsync g \<and> n \<notin> set (in_flight s) \<longrightarrow>
             fst rs = Inr () \<and>
             trace (settle n Fulfilled (snd rs)) =
               trace s @
                 [Logged (Log True ''Performing Action\<newline>'' ''log''),
                  Logged (Custom ''File Changed'' ''info'' rel),
                  LockAcquired, Called n g ctx, LockReleased, Settled n Fulfilled,
                  Logged (Log False ''Action Completed\<newline>'' ''log''),
                  Logged (Custom ''Change'' ''success'' rel)]) \<and>
          (\<not> present_async (action_of this ''change'') \<and> cfg_runScripts (config this) \<noteq> [] \<and>
           spawn_failure (run_child ext call) = None \<longrightarrow>
             fst rs = Inr () \<and>
             cwd call = packagePath (getPackage (packages this) p) \<and>
             trace (snd rs) =
               trace s @
                 [Logged (Log True ''Performing Action\<newline>'' ''log''),
                  Logged (Custom ''File Changed'' ''info'' rel),
                  LockAcquired, Spawned call, Logged (Log False ''Action Completed\<newline>'' ''log''),
                  Logged (Custom ''Change'' ''success'' rel), LockReleased])))"
proof
  assume a: "\<not> lock_held s \<and> lock_queue s = [] \<and>
    (case st of Some y \<Rightarrow> Inr y | None \<Rightarrow> statSync ext p) = Inr x"
  have cwd: "cwd (spawn_of (config this) (opts_of this p (Some x)) e)
               = packagePath (getPackage (packages this) p)" for e
    by (simp add: spawn_of_def opts_of_eq)
  show "let ctx = \<lparr>currentPkg = currentPkg (getPackage (packages this) p),
                  packagePath = packagePath (getPackage (packages this) p),
                  filePath = p, stats = Some x\<rparr>;
           rel = convertPath ext (root this) p;
           n = next_promise s;
           call = spawn_of (config this) ctx (AList.update ''FORCE_COLOR'' ''true'' (env s));
           rs = change_handler ext this p st s
       in (action_of this ''change'' = Some g \<and> isAsync g \<and> n \<notin> set (in_flight s) \<longrightarrow>
             fst rs = Inr () \<and>
             trace (settle n Fulfilled (snd rs)) =
               trace s @
                 [Logged (Log True ''Performing Action\<newline>'' ''log''),
                  Logged (Custom ''File Changed'' ''info'' rel),
                  LockAcquired, Called n g ctx, LockReleased, Settled n Fulfilled,
                  Logged (Log False ''Action Completed\<newline>'' ''log''),
                  Logged (Custom ''Change'' ''success'' rel)]) \<and>
          (\<not> present_async (action_of this ''change'') \<and> cfg_runScripts (config this) \<noteq> [] \<and>
           spawn_failure (run_child ext call) = None \<longrightarrow>
             fst rs = Inr () \<and>
             cwd call = packagePath (getPackage (packages this) p) \<and>
             trace (snd rs) =
               trace s @
                 [Logged (Log True ''Performing Action\<newline>'' ''log''),
                  Logged (Custom ''File Changed'' ''info'' rel),
                  LockAcquired, Spawned call, Logged (Log False ''Action Completed\<newline>'' ''log''),
                  Logged (Custom ''Change'' ''success'' rel), LockReleased])"
    unfolding Let_def opts_of_eq [symmetric]
    using a change_async [where s = s and st = st and ext = ext and p = p and x = x
          and this = this and f = g]
      change_spawn [where s = s and st = st and ext = ext and p = p and x = x and this = this] cwd
    by simp
qed

text \<open>
  Claim C4: \<open>runUserFn\<close> takes its first branch exactly when an action is configured
  and \<open>isAsync\<close> recognises it. Then it calls that function with the event context
  and returns; when the promise is fulfilled, the header line and one completed entry,
  the event name tagged \<open>success\<close> and the path relative to the root, are logged.
  Otherwise it spawns the configured command list in the package directory of the
  context, calls no function, and when the command list is not empty and the spawn
  does not fail it returns after the same two log lines. Each handler dispatches with
  its own event name, the resolved context and its own configured action: \<open>Add\<close>,
  \<open>Add Dir\<close>, \<open>Remove\<close> and \<open>Remove Dir\<close> after the change of the watch set,
  \<open>Change\<close> inside the lock after its two log lines.
\<close>

theorem runUserFn_branches:
  "(present_async fn \<longleftrightarrow> (\<exists>f. fn = Some f \<and> isAsync f)) \<and>
   (fn = Some f \<and> isAsync f \<and> next_promise s \<notin> set (in_flight s) \<longrightarrow>
      (let n = next_promise s;
           rel = convertPath ext (root this) (filePath opts);
           rs = runUserFn ext this ev opts fn s
       in fst rs = Inr () \<and>
          trace (snd rs) = trace s @ [Called n f opts] \<and>
          in_flight (snd rs) = in_flight s @ [n] \<and>
          trace (settle n Fulfilled (snd rs)) =
            trace (snd rs) @
              [Settled n Fulfilled, Logged (Log False ''Action Completed\<newline>'' ''log''),
               Logged (Custom ev ''success'' rel)] \<and>
          in_flight (settle n Fulfilled (snd rs)) = in_flight s)) \<and>
   (\<not> present_async fn \<longrightarrow>
      (let call = spawn_of (config this) opts (AList.update ''FORCE_COLOR'' ''true'' (env s));
           rel = convertPath ext (root this) (filePath opts);
           rs = runUserFn ext this ev opts fn s
       in (\<exists>rest. trace (snd rs) = trace s @ Spawned call # rest) \<and>
          (case command call of None \<Rightarrow> [] | Some c \<Rightarrow> [c]) @ args call
            = cfg_runScripts (config this) \<and>
          cwd call = packagePath opts \<and>
          in_flight (snd rs) = in_flight s \<and>
          (cfg_runScripts (config this) \<noteq> [] \<and> spawn_failure (run_child ext call) = None \<longrightarrow>
             fst rs = Inr () \<and>
             trace (snd rs) =
               trace s @
                 [Spawned call, Logged (Log False ''Action Completed\<newline>'' ''log''),
                  Logged (Custom ev ''success'' rel)]))) \<and>
   ((h, tag, key, st', w) \<in>
        {(onAdd ext this p st, ''Add'', ''add'', st, WatchAdd p),
         (onAddDir ext this p st, ''Add Dir'', ''addDir'', st, WatchAdd p),
         (onUnlink ext this p, ''Remove'', ''unlink'', None, Unwatch p),
         (onUnlinkDir ext this p, ''Remove Dir'', ''unlinkDir'', None, Unwatch p)} \<longrightarrow>
      (let ctx = \<lparr>currentPkg = currentPkg (getPackage (packages this) p),
                  packagePath = packagePath (getPackage (packages this) p),
                  filePath = p, stats = st'\<rparr>;
           rel = convertPath ext (root this) p;
           n = next_promise s;
           call = spawn_of (config this) ctx (AList.update ''FORCE_COLOR'' ''true'' (env s))
       in (action_of this key = Some g \<and> isAsync g \<and> n \<notin> set (in_flight s) \<longrightarrow>
             fst (h s) = Inr () \<and>
             trace (settle n Fulfilled (snd (h s))) =
               trace s @
                 [w, Called n g ctx, Settled n Fulfilled, Logged (Log False ''Action Completed\<newline>'' ''log''),
                  Logged (Custom tag ''success'' rel)]) \<and>
          (\<not> present_async (action_of this key) \<and> cfg_runScripts (config this) \<noteq> [] \<and>
           spawn_failure (run_child ext call) = None \<longrightarrow>
             fst (h s) = Inr () \<and>
             cwd call = packagePath (getPackage (packages this) p) \<and>
             trace (snd (h s)) =
               trace s @
                 [w, Spawned call, Logged (Log False ''Action Completed\<newline>'' ''log''),
                  Logged (Custom tag ''success'' rel)]))) \<and>
   (\<not> lock_held s \<and> lock_queue s = [] \<and>
    (case st of Some y \<Rightarrow> Inr y | None \<Rightarrow> statSync ext p) = Inr x \<longrightarrow>
      (let ctx = \<lparr>currentPkg = currentPkg (getPackage (packages this) p),
                  packagePath = packagePath (getPackage (packages this) p),
                  filePath = p, stats = Some x\<rparr>;
           rel = convertPath ext (root this) p;
           n = next_promise s;
           call = spawn_of (config this) ctx (AList.update ''FORCE_COLOR'' ''true'' (env s));
           rs = change_handler ext this p st s
       in (action_of this ''change'' = Some g \<and> isAsync g \<and> n \<notin> set (in_flight s) \<longrightarrow>
             fst rs = Inr () \<and>
             trace (settle n Fulfilled (snd rs)) =
               trace s @
                 [Logged (Log True ''Performing Action\<newline>'' ''log''),
                  Logged (Custom ''File Changed'' ''info'' rel),
                  LockAcquired, Called n g ctx, LockReleased, Settled n Fulfilled,
                  Logged (Log False ''Action Completed\<newline>'' ''log''),
                  Logged (Custom ''Change'' ''success'' rel)]) \<and>
          (\<not> present_async (action_of this ''change'') \<and> cfg_runScripts (config this) \<noteq> [] \<and>
           spawn_failure (run_child ext call) = None \<longrightarrow>
             fst rs = Inr () \<and>
             cwd call = packagePath (getPackage (packages this) p) \<and>
             trace (snd rs) =
               trace s @
                 [Logged (Log True ''Performing Action\<newline>'' ''log''),
                  Logged (Custom ''File Changed'' ''info'' rel),
                  LockAcquired, Spawned call, Logged (Log False ''Action Completed\<newline>'' ''log''),
                  Logged (Custom ''Change'' ''success'' rel), LockReleased])))"
  by (intro conjI present_async_iff branch_call branch_spawn dispatch_simple dispatch_change)


lemma ex_present: "\<not> present_async None" "present_async (Some (UserFn 1 True))"
  by (simp_all add: present_async_def async_of_def)

lemma ex_values:
  "getPackage [pkg_core] ''/repo/packages/core/a.ts''
     = \<lparr>currentPkg = ''core'', packagePath = ''/repo/packages/core''\<rparr>"
  "convertPath ext0 ''/repo'' ''/repo/packages/core/a.ts'' = ''packages/core/a.ts''"
  "action_of this_async ''add'' = Some (UserFn 1 True)"
  "action_of this_async ''change'' = Some (UserFn 2 True)"
  "action_of this_spawn key = None"
  "next_promise state0 = 0" "in_flight state0 = []" "trace state0 = []" "env state0 = []"
  "\<not> lock_held state0" "lock_queue state0 = []"
  by (simp_all add: getPackage_def pkg_core_def dir_basename_def ext0_def action_of_def
      this_async_def this_spawn_def cfg_async_def cfg_spawn_def state0_def initial_def
      in_flight_def)

text \<open>
  C4 at an asynchronous \<open>add\<close> action, at a spawn with no action configured, at an
  unlink and at a change with an asynchronous action.
\<close>

theorem runUserFn_branches_witness:
  "trace (settle 0 Fulfilled
            (snd (runUserFn ext0 this_async ''Add'' opts0 (Some (UserFn 1 True)) state0))) =
     [Called 0 (UserFn 1 True) opts0, Settled 0 Fulfilled,
      Logged (Log False ''Action Completed\<newline>'' ''log''),
      Logged (Custom ''Add'' ''success'' ''packages/core/a.ts'')] \<and>
   trace (snd (runUserFn ext0 this_spawn ''Change'' opts0 None state0)) =
     [Spawned \<lparr>command = Some ''echo'', args = [''hi''],
               spawn_env = [(''FORCE_COLOR'', ''true'')],
               cwd = ''/repo/packages/core'',
               stdio = StdioEach [Inherit, Pipe, ParentStderr]\<rparr>,
      Logged (Log False ''Action Completed\<newline>'' ''log''),
      Logged (Custom ''Change'' ''success'' ''packages/core/a.ts'')] \<and>
   trace (snd (onUnlink ext0 this_spawn ''/repo/packages/core/a.ts'' state0)) =
     [Unwatch ''/repo/packages/core/a.ts'',
      Spawned \<lparr>command = Some ''echo'', args = [''hi''],
               spawn_env = [(''FORCE_COLOR'', ''true'')],
               cwd = ''/repo/packages/core'',
               stdio = StdioEach [Inherit, Pipe, ParentStderr]\<rparr>,
      Logged (Log False ''Action Completed\<newline>'' ''log''),
      Logged (Custom ''Remove'' ''success'' ''packages/core/a.ts'')] \<and>
   trace (settle 0 Fulfilled
            (snd (change_handler ext0 this_async ''/repo/packages/core/a.ts'' None state0))) =
     [Logged (Log True ''Performing Action\<newline>'' ''log''),
      Logged (Custom ''File Changed'' ''info'' ''packages/core/a.ts''),
      LockAcquired,
      Called 0 (UserFn 2 True)
        \<lparr>currentPkg = ''core'', packagePath = ''/repo/packages/core'',
         filePath = ''/repo/packages/core/a.ts'', stats = Some (Stats 0)\<rparr>,
      LockReleased, Settled 0 Fulfilled,
      Logged (Log False ''Action Completed\<newline>'' ''log''),
      Logged (Custom ''Change'' ''success'' ''packages/core/a.ts'')]"
proof -
  have child: "spawn_failure (run_child ext0 c) = None" for c
    by (simp add: ext0_def)
  have cfg: "config this_spawn = cfg_spawn" "cfg_runScripts cfg_spawn \<noteq> []"
    "root this_spawn = ''/repo''" "root this_async = ''/repo''"
    "packages this_spawn = [pkg_core]" "packages this_async = [pkg_core]"
    "filePath opts0 = ''/repo/packages/core/a.ts''"
    by (simp_all add: this_spawn_def this_async_def cfg_spawn_def opts0_def)
  have call: "spawn_of cfg_spawn opts0 [(''FORCE_COLOR'', ''true'')] =
      \<lparr>command = Some ''echo'', args = [''hi''], spawn_env = [(''FORCE_COLOR'', ''true'')],
       cwd = ''/repo/packages/core'', stdio = StdioEach [Inherit, Pipe, ParentStderr]\<rparr>"
    by (simp add: spawn_of_def cfg_spawn_def opts0_def stdio_of_def)
  have stat: "(case None of Some y \<Rightarrow> Inr y | None \<Rightarrow> statSync ext0 ''/repo/packages/core/a.ts'')
      = Inr (Stats 0)"
    by (simp add: ext0_def)
  have one: "trace (settle 0 Fulfilled
            (snd (runUserFn ext0 this_async ''Add'' opts0 (Some (UserFn 1 True)) state0))) =
     [Called 0 (UserFn 1 True) opts0, Settled 0 Fulfilled,
      Logged (Log False ''Action Completed\<newline>'' ''log''),
      Logged (Custom ''Add'' ''success'' ''packages/core/a.ts'')]"
    using runUserFn_branches [where fn = "Some (UserFn 1 True)" and f = "UserFn 1 True" and s = state0 and ext = ext0
          and this = this_async and ev = "''Add''" and opts = opts0,
        THEN conjunct2, THEN conjunct1]
    by (simp add: Let_def ex_values cfg)
  have two: "trace (snd (runUserFn ext0 this_spawn ''Change'' opts0 None state0)) =
     [Spawned (spawn_of cfg_spawn opts0 [(''FORCE_COLOR'', ''true'')]),
      Logged (Log False ''Action Completed\<newline>'' ''log''),
      Logged (Custom ''Change'' ''success'' ''packages/core/a.ts'')]"
    using runUserFn_branches [where fn = None and s = state0 and ext = ext0
          and this = this_spawn and ev = "''Change''" and opts = opts0,
        THEN conjunct2, THEN conjunct2, THEN conjunct1]
    by (simp add: Let_def ex_values ex_present cfg child)
  have ctx: "\<lparr>currentPkg = ''core'', packagePath = ''/repo/packages/core'',
       filePath = ''/repo/packages/core/a.ts'', stats = None\<rparr> = opts0"
    by (simp add: opts0_def)
  have three: "trace (snd (onUnlink ext0 this_spawn ''/repo/packages/core/a.ts'' state0)) =
     [Unwatch ''/repo/packages/core/a.ts'',
      Spawned (spawn_of cfg_spawn opts0 [(''FORCE_COLOR'', ''true'')]),
      Logged (Log False ''Action Completed\<newline>'' ''log''),
      Logged (Custom ''Remove'' ''success'' ''packages/core/a.ts'')]"
    using runUserFn_branches [where h = "onUnlink ext0 this_spawn ''/repo/packages/core/a.ts''" and tag = "''Remove''"
          and key = "''unlink''" and st' = None and w = "Unwatch ''/repo/packages/core/a.ts''"
          and ext = ext0 and this = this_spawn and p = "''/repo/packages/core/a.ts''"
          and s = state0,
        THEN conjunct2, THEN conjunct2, THEN conjunct2, THEN conjunct1]
    by (simp add: Let_def ex_values ex_present cfg child ctx)
  have four: "trace (settle 0 Fulfilled
            (snd (change_handler ext0 this_async ''/repo/packages/core/a.ts'' None state0))) =
     [Logged (Log True ''Performing Action\<newline>'' ''log''),
      Logged (Custom ''File Changed'' ''info'' ''packages/core/a.ts''),
      LockAcquired,
      Called 0 (UserFn 2 True)
        \<lparr>currentPkg = ''core'', packagePath = ''/repo/packages/core'',
         filePath = ''/repo/packages/core/a.ts'', stats = Some (Stats 0)\<rparr>,
      LockReleased, Settled 0 Fulfilled,
      Logged (Log False ''Action Completed\<newline>'' ''log''),
      Logged (Custom ''Change'' ''success'' ''packages/core/a.ts'')]"
    using runUserFn_branches [where s = state0 and st = None and ext = ext0 and p = "''/repo/packages/core/a.ts''"
          and x = "Stats 0" and this = this_async and g = "UserFn 2 True",
        THEN conjunct2, THEN conjunct2, THEN conjunct2, THEN conjunct2] stat
    by (simp add: Let_def ex_values cfg)
  from one two three four call show ?thesis by simp
qed

section \<open>Spawn failures\<close>

lemma spawn_error_raises:
  "\<not> present_async fn \<Longrightarrow> cfg_runScripts (config this) \<noteq> [] \<Longrightarrow>
   spawn_failure (run_child ext
     (spawn_of (config this) opts (AList.update ''FORCE_COLOR'' ''true'' (env s)))) = Some e \<Longrightarrow>
   fst (runUserFn ext this ev opts fn s) = Inl (SpawnError e) \<and>
   trace (snd (runUserFn ext this ev opts fn s)) =
     trace s @
       [Spawned (spawn_of (config this) opts (AList.update ''FORCE_COLOR'' ''true'' (env s)))]"
  by (simp add: runUserFn_spawn Let_def emit_def split: list.splits)

lemma stderr_never_raised: "fst (runUserFn ext this ev opts fn s) \<noteq> Inl (StderrError buf)"
proof (cases "present_async fn")
  case True
  then obtain f where "fn = Some f" "isAsync f"
    by (auto simp: present_async_iff)
  then show ?thesis
    by (simp add: runUserFn_async)
next
  case False
  then show ?thesis
    by (simp add: runUserFn_spawn Let_def split: list.splits option.splits)
qed

text \<open>
  Claim C5 at a command that starts, writes \<open>boom\<close> to its stderr and ends, with child
  logs shown and with child logs suppressed: in both cases the stderr of the command is
  not a pipe to the parent, the result of the spawn carries no stderr, and the runner
  returns normally after logging the completed entry. A spawn that fails is thrown
  before the completed entry.
\<close>

theorem stderr_output_not_raised:
  "wrote_stderr (run_child ext_fail (spawn_of cfg_spawn opts0 [(''FORCE_COLOR'', ''true'')]))
     = ''boom'' \<and>
   spawn_sync ext_fail (spawn_of cfg_spawn opts0 [(''FORCE_COLOR'', ''true'')])
     = Inr \<lparr>error = None, stderr = None\<rparr> \<and>
   runUserFn ext_fail this_spawn ''Change'' opts0 None state0 =
     (Inr (),
      state0\<lparr>env := [(''FORCE_COLOR'', ''true'')],
             trace :=
               [Spawned (spawn_of cfg_spawn opts0 [(''FORCE_COLOR'', ''true'')]),
                Logged (Log False ''Action Completed\<newline>'' ''log''),
                Logged (Custom ''Change'' ''success'' ''packages/core/a.ts'')]\<rparr>) \<and>
   fst (runUserFn ext_fail (this_spawn\<lparr>config := cfg_spawn\<lparr>cfg_noChildProcessLogs := True\<rparr>\<rparr>)
          ''Change'' opts0 None state0) = Inr () \<and>
   runUserFn ext_enoent this_spawn ''Change'' opts0 None state0 =
     (Inl (SpawnError ''ENOENT''),
      state0\<lparr>env := [(''FORCE_COLOR'', ''true'')],
             trace := [Spawned (spawn_of cfg_spawn opts0 [(''FORCE_COLOR'', ''true'')])]\<rparr>)"
  by (simp add: runUserFn_def async_of_def spawn_sync_def stderr_slot_def Let_def emit_def
      EndLogger_def completed_entry_def state0_def initial_def ext0_def ext_fail_def
      ext_enoent_def this_spawn_def opts0_def spawn_of_def stdio_of_def cfg_spawn_def)

section \<open>A user callback that fails\<close>

text \<open>
  Claim C6: the call of an asynchronous user callback is not wrapped in error handling.
  \<open>runUserFn\<close> returns normally after the call; when the promise is rejected, the
  rejection is unhandled, the callback is not called again, and no completed entry is
  logged for the invocation.
\<close>

theorem rejected_callback_unhandled:
  "fn = Some f \<Longrightarrow> isAsync f \<Longrightarrow> next_promise s \<notin> set (in_flight s) \<Longrightarrow>
   (let n = next_promise s;
        rel = convertPath ext (root this) (filePath opts);
        rs = runUserFn ext this ev opts fn s;
        s2 = settle n (Rejected reason) (snd rs)
    in fst rs = Inr () \<and>
       trace s2 =
         trace s @
           [Called n f opts, Settled n (Rejected reason),
            UnhandledRejection (CallbackError reason)] \<and>
       completed_entry ev rel \<notin> set (drop (length (trace s)) (trace s2)) \<and>
       in_flight s2 = in_flight s)"
  by (simp add: runUserFn_async settle_fresh Let_def)
    (simp add: emit_def in_flight_def completed_entry_def)

text \<open>C6 at an \<open>add\<close> callback whose promise is rejected.\<close>

theorem rejected_callback_unhandled_witness:
  "(let rs = runUserFn ext0 this_async ''Add'' opts0 (Some (UserFn 1 True)) state0
    in fst rs = Inr () \<and>
       trace (settle 0 (Rejected ''failed'') (snd rs)) =
         [Called 0 (UserFn 1 True) opts0, Settled 0 (Rejected ''failed''),
          UnhandledRejection (CallbackError ''failed'')])"
  using rejected_callback_unhandled
    [of "Some (UserFn 1 True)" "UserFn 1 True" state0 ext0 this_async opts0 "''Add''" "''failed''"]
  by (simp add: Let_def) (simp add: state0_def initial_def in_flight_def)

section \<open>The spawned command\<close>

lemma map_of_update: "map_of (AList.update k v al) = (map_of al)(k \<mapsto> v)"
  by (rule AList.update_conv')

text \<open>
  Claim C7, as the code has it: the fallback spawn runs the head of the command list
  with the rest as its arguments, in the package directory of the context, with the
  environment of the process in which \<open>FORCE_COLOR\<close> is now \<open>true\<close>, and the runner
  returns normally exactly when the result carries neither an error nor a stderr, which
  is when the command list is not empty and the spawn does not fail. When
  child logs are suppressed all three streams are ignored; otherwise stdin is inherited,
  stdout is a pipe to the parent and stderr is the parent's own stderr.
\<close>

theorem fallback_spawn_call:
  "\<not> present_async fn \<Longrightarrow>
   (let call = spawn_of (config this) opts (AList.update ''FORCE_COLOR'' ''true'' (env s));
        cp = spawn_sync ext call;
        rs = runUserFn ext this ev opts fn s
    in (\<exists>rest. trace (snd rs) = trace s @ Spawned call # rest) \<and>
       (\<forall>c cs. cfg_runScripts (config this) = c # cs \<longrightarrow> command call = Some c \<and> args call = cs) \<and>
       cwd call = packagePath opts \<and>
       map_of (spawn_env call) = (map_of (env s))(''FORCE_COLOR'' \<mapsto> ''true'') \<and>
       env (snd rs) = spawn_env call \<and>
       (fst rs = Inr () \<longleftrightarrow> (\<exists>r. cp = Inr r \<and> error r = None \<and> stderr r = None)) \<and>
       (fst rs = Inr () \<longleftrightarrow>
          cfg_runScripts (config this) \<noteq> [] \<and> spawn_failure (run_child ext call) = None) \<and>
       (cfg_noChildProcessLogs (config this) \<longrightarrow>
          stream_slots (stdio call) = [Ignore, Ignore, Ignore]) \<and>
       (\<not> cfg_noChildProcessLogs (config this) \<longrightarrow>
          stream_slots (stdio call) = [Inherit, Pipe, ParentStderr]))"
proof -
  assume na: "\<not> present_async fn"
  let ?call = "spawn_of (config this) opts (AList.update ''FORCE_COLOR'' ''true'' (env s))"
  have call: "\<forall>c cs. cfg_runScripts (config this) = c # cs \<longrightarrow> command ?call = Some c \<and> args ?call = cs"
    "cwd ?call = packagePath opts"
    "map_of (spawn_env ?call) = (map_of (env s))(''FORCE_COLOR'' \<mapsto> ''true'')"
    "cfg_noChildProcessLogs (config this) \<longrightarrow> stream_slots (stdio ?call) = [Ignore, Ignore, Ignore]"
    "\<not> cfg_noChildProcessLogs (config this) \<longrightarrow>
       stream_slots (stdio ?call) = [Inherit, Pipe, ParentStderr]"
    by (simp_all add: spawn_of_def stdio_of_def stream_slots_def map_of_update)
  have run: "(\<exists>rest. trace (snd (runUserFn ext this ev opts fn s)) = trace s @ Spawned ?call # rest) \<and>
      env (snd (runUserFn ext this ev opts fn s)) = spawn_env ?call \<and>
      (fst (runUserFn ext this ev opts fn s) = Inr () \<longleftrightarrow>
         (\<exists>r. spawn_sync ext ?call = Inr r \<and> error r = None \<and> stderr r = None)) \<and>
      (fst (runUserFn ext this ev opts fn s) = Inr () \<longleftrightarrow>
         cfg_runScripts (config this) \<noteq> [] \<and> spawn_failure (run_child ext ?call) = None)"
    by (cases "cfg_runScripts (config this)";
        cases "spawn_failure (run_child ext ?call)")
      (simp_all add: runUserFn_spawn [OF na] spawn_sync_spawn_of Let_def emit_def EndLogger_def,
        simp_all add: spawn_of_def)
  from call run show ?thesis
    unfolding Let_def by blast
qed

text \<open>C7 at the command list \<open>echo hi\<close>, with and without suppressed child logs.\<close>

theorem fallback_spawn_call_witness:
  "trace (snd (runUserFn ext0 this_spawn ''Change'' opts0 None state0)) ! 0 =
     Spawned \<lparr>command = Some ''echo'', args = [''hi''],
              spawn_env = [(''FORCE_COLOR'', ''true'')],
              cwd = ''/repo/packages/core'',
              stdio = StdioEach [Inherit, Pipe, ParentStderr]\<rparr> \<and>
   stream_slots (stdio (spawn_of (cfg_spawn\<lparr>cfg_noChildProcessLogs := True\<rparr>) opts0
     [(''FORCE_COLOR'', ''true'')])) = [Ignore, Ignore, Ignore]"
proof -
  have na: "\<not> present_async None"
    by (rule ex_present)
  have call: "spawn_of (config this_spawn) opts0 (AList.update ''FORCE_COLOR'' ''true'' (env state0)) =
      \<lparr>command = Some ''echo'', args = [''hi''], spawn_env = [(''FORCE_COLOR'', ''true'')],
       cwd = ''/repo/packages/core'', stdio = StdioEach [Inherit, Pipe, ParentStderr]\<rparr>"
    by (simp add: spawn_of_def this_spawn_def cfg_spawn_def opts0_def stdio_of_def state0_def
        initial_def)
  have st: "trace state0 = []"
    by (simp add: state0_def initial_def)
  from fallback_spawn_call [OF na, where this = this_spawn and opts = opts0 and s = state0
      and ext = ext0 and ev = "''Change''"]
  obtain rest where "trace (snd (runUserFn ext0 this_spawn ''Change'' opts0 None state0)) =
      trace state0 @
        Spawned (spawn_of (config this_spawn) opts0
                   (AList.update ''FORCE_COLOR'' ''true'' (env state0))) # rest"
    unfolding Let_def by blast
  then have one: "trace (snd (runUserFn ext0 this_spawn ''Change'' opts0 None state0)) ! 0 =
     Spawned \<lparr>command = Some ''echo'', args = [''hi''],
              spawn_env = [(''FORCE_COLOR'', ''true'')],
              cwd = ''/repo/packages/core'',
              stdio = StdioEach [Inherit, Pipe, ParentStderr]\<rparr>"
    by (simp add: call st)
  from fallback_spawn_call [OF na,
      where this = "this_spawn\<lparr>config := cfg_spawn\<lparr>cfg_noChildProcessLogs := True\<rparr>\<rparr>"
        and opts = opts0 and s = state0 and ext = ext0 and ev = "''Change''"]
  have two: "stream_slots (stdio (spawn_of (cfg_spawn\<lparr>cfg_noChildProcessLogs := True\<rparr>) opts0
     [(''FORCE_COLOR'', ''true'')])) = [Ignore, Ignore, Ignore]"
    unfolding Let_def by (simp add: ex_values)
  from one two show ?thesis by simp
qed

text \<open>
  C7 as stated fails: without suppressed child logs, the stdout of the spawned command
  is a pipe, not inherited.
\<close>

theorem stdout_inherited_counterexample:
  "\<not> cfg_noChildProcessLogs (config this_spawn) \<and>
   trace (snd (runUserFn ext0 this_spawn ''Change'' opts0 None state0)) ! 0 =
     Spawned (spawn_of cfg_spawn opts0 [(''FORCE_COLOR'', ''true'')]) \<and>
   stream_slots (stdio (spawn_of cfg_spawn opts0 [(''FORCE_COLOR'', ''true'')])) ! 1 = Pipe \<and>
   stream_slots (stdio (spawn_of cfg_spawn opts0 [(''FORCE_COLOR'', ''true'')])) ! 1 \<noteq> Inherit"
  by (simp add: runUserFn_def async_of_def spawn_sync_def stderr_slot_def Let_def emit_def
      EndLogger_def state0_def initial_def ext0_def this_spawn_def opts0_def spawn_of_def
      stdio_of_def cfg_spawn_def stream_slots_def)

section \<open>The watch set\<close>

lemma runUserFn_watched: "watched (snd (runUserFn ext this ev opts fn s)) = watched s"
  by (simp add: runUserFn_def Let_def emit_def EndLogger_def split: option.splits sum.splits)

lemma runUserFn_trace: "\<exists>new. trace (snd (runUserFn ext this ev opts fn s)) = trace s @ new"
  by (simp add: runUserFn_def Let_def emit_def EndLogger_def split: option.splits sum.splits)

lemma runUserFn_error:
  "fst (runUserFn ext this ev opts fn s) = Inl e \<Longrightarrow> \<exists>m. e = SpawnError m \<or> e = StderrError m"
  by (auto simp: runUserFn_def spawn_sync_def Let_def split: option.splits sum.splits)

text \<open>
  Claim C8: the handlers of \<open>add\<close> and \<open>addDir\<close> add the notified path to the watch
  set, and this is the first thing they do after what came before; the handlers of
  \<open>unlink\<close> and \<open>unlinkDir\<close> remove it in the same way. Handling the same notification
  a second time leaves the watch set as the first time left it, and the only errors a
  handler can end with are those of a failed spawn of the configured command.
\<close>

theorem add_unlink_watch_set:
  "(h = onAdd ext this p st \<or> h = onAddDir ext this p st \<longrightarrow>
      watched (snd (h s)) = insert p (watched s) \<and>
      (\<exists>rest. trace (snd (h s)) = trace s @ WatchAdd p # rest) \<and>
      watched (snd (h (snd (h s)))) = watched (snd (h s)) \<and>
      (\<forall>e. fst (h (snd (h s))) = Inl e \<longrightarrow> (\<exists>m. e = SpawnError m \<or> e = StderrError m))) \<and>
   (h = onUnlink ext this p \<or> h = onUnlinkDir ext this p \<longrightarrow>
      watched (snd (h s)) = watched s - {p} \<and>
      (\<exists>rest. trace (snd (h s)) = trace s @ Unwatch p # rest) \<and>
      watched (snd (h (snd (h s)))) = watched (snd (h s)) \<and>
      (\<forall>e. fst (h (snd (h s))) = Inl e \<longrightarrow> (\<exists>m. e = SpawnError m \<or> e = StderrError m)))"
proof -
  have add: "watched (snd (runUserFn ext this ev opts fn (watcher_add p s'))) = insert p (watched s') \<and>
      (\<exists>rest. trace (snd (runUserFn ext this ev opts fn (watcher_add p s'))) = trace s' @ WatchAdd p # rest)"
    for ev opts fn s'
    using runUserFn_trace [of ext this ev opts fn "watcher_add p s'"]
    by (auto simp: runUserFn_watched watcher_add_def emit_def)
  have del: "watched (snd (runUserFn ext this ev opts fn (watcher_unwatch p s'))) = watched s' - {p} \<and>
      (\<exists>rest. trace (snd (runUserFn ext this ev opts fn (watcher_unwatch p s'))) = trace s' @ Unwatch p # rest)"
    for ev opts fn s'
    using runUserFn_trace [of ext this ev opts fn "watcher_unwatch p s'"]
    by (auto simp: runUserFn_watched watcher_unwatch_def emit_def)
  show ?thesis
    using add del runUserFn_error [of ext this]
    by (auto simp: onAdd_def onAddDir_def onUnlink_def onUnlinkDir_def)
qed

text \<open>C8 at a file added twice and a file unlinked twice.\<close>

theorem add_unlink_watch_set_witness:
  "watched (snd (onAdd ext0 this_async ''/repo/packages/core/a.ts'' None state0))
     = {''/repo/packages/core/a.ts'', ''src''} \<and>
   watched (snd (onAdd ext0 this_async ''/repo/packages/core/a.ts'' None
                  (snd (onAdd ext0 this_async ''/repo/packages/core/a.ts'' None state0))))
     = {''/repo/packages/core/a.ts'', ''src''} \<and>
   watched (snd (onUnlink ext0 this_async ''src'' state0)) = {} \<and>
   watched (snd (onUnlink ext0 this_async ''src'' (snd (onUnlink ext0 this_async ''src'' state0)))) = {}"
  using add_unlink_watch_set
      [of "onAdd ext0 this_async ''/repo/packages/core/a.ts'' None"
          ext0 this_async "''/repo/packages/core/a.ts''" None state0]
    add_unlink_watch_set
      [of "onUnlink ext0 this_async ''src''" ext0 this_async "''src''" None state0]
  by (simp add: state0_def initial_def)

section \<open>The command list of the merged configuration\<close>






section \<open>The lock and the change action\<close>

lemma lock_acquire_free:
  "\<not> lock_held s \<Longrightarrow> lock_queue s = [] \<Longrightarrow>
   \<not> lock_held (lock_acquire ext this task s) \<and> lock_queue (lock_acquire ext this task s) = []"
  by (simp add: lock_acquire_def lock_done_def lock_exec_queue)

lemma step_lock_free:
  "\<not> lock_held s \<Longrightarrow> lock_queue s = [] \<Longrightarrow>
   \<not> lock_held (step ext this s e) \<and> lock_queue (step ext this s e) = []"
proof (cases e)
  case (EvChange p st)
  assume "\<not> lock_held s" "lock_queue s = []"
  then show ?thesis
    using EvChange lock_acquire_free [of _ ext this]
    by (auto simp: uncaught_def change_handler_def emit_def Let_def split: sum.splits option.splits)
next
  case (EvSettle n outcome)
  assume "\<not> lock_held s" "lock_queue s = []"
  then show ?thesis
    using EvSettle
    by (auto simp: settle_def emit_def EndLogger_def Let_def split: option.splits settlement.splits)
qed (auto simp: uncaught_def onAdd_def onAddDir_def onUnlink_def onUnlinkDir_def runUserFn_lock
    emit_def watcher_add_def watcher_unwatch_def split: sum.splits)

lemma run_loop_lock_free:
  "\<not> lock_held s \<Longrightarrow> lock_queue s = [] \<Longrightarrow>
   \<not> lock_held (run_loop ext this evs s) \<and> lock_queue (run_loop ext this evs s) = []"
  unfolding run_loop_def
  by (induction evs arbitrary: s) (simp_all add: step_lock_free)

lemma runUserFn_spawn_in_flight:
  "\<not> present_async fn \<Longrightarrow> in_flight (snd (runUserFn ext this ev opts fn s)) = in_flight s"
  by (simp add: runUserFn_spawn Let_def emit_def EndLogger_def in_flight_def
      split: list.splits option.splits)

lemma spawn_change_not_in_flight:
  "\<not> present_async (action_of this ''change'') \<Longrightarrow> \<not> lock_held s \<Longrightarrow> lock_queue s = [] \<Longrightarrow>
   in_flight (step ext this s (EvChange p st)) = in_flight s"
proof -
  assume na: "\<not> present_async (action_of this ''change'')"
    and free: "\<not> lock_held s" "lock_queue s = []"
  have exec: "in_flight (lock_exec ext this \<lparr>task_opts = opts, task_fn = action_of this ''change''\<rparr> s')
      = in_flight s'" for opts s'
  proof -
    let ?s1 = "emit [LockAcquired] (s'\<lparr>lock_held := True\<rparr>)"
    obtain r s2 where eq: "runUserFn ext this ''Change'' opts (action_of this ''change'') ?s1 = (r, s2)"
      by (cases "runUserFn ext this ''Change'' opts (action_of this ''change'') ?s1")
    from runUserFn_spawn_in_flight [OF na, of ext this "''Change''" opts ?s1] eq
    have "in_flight s2 = in_flight s'"
      by (simp add: emit_def in_flight_def)
    with eq show ?thesis
      by (simp add: lock_exec_def Let_def emit_def in_flight_def split: sum.splits)
  qed
  have acq: "in_flight (lock_acquire ext this \<lparr>task_opts = opts, task_fn = action_of this ''change''\<rparr> s')
      = in_flight s'" if "\<not> lock_held s'" "lock_queue s' = []" for opts s'
    using that exec [of opts s']
    by (simp add: lock_acquire_def lock_done_def lock_exec_queue in_flight_def)
  show ?thesis
  proof (cases "case st of Some x \<Rightarrow> Inr x | None \<Rightarrow> statSync ext p")
    case (Inl e)
    then show ?thesis
      by (simp add: uncaught_def change_handler_def emit_def in_flight_def)
  next
    case (Inr x)
    then show ?thesis
      using free acq [of "emit [Logged (Log True ''Performing Action\<newline>'' ''log''),
                          Logged (Custom ''File Changed'' ''info'' (convertPath ext (root this) p))] s"
                        "opts_of this p (Some x)"]
      by (simp add: uncaught_def change_handler_def Let_def emit_def in_flight_def)
  qed
qed

text \<open>
  Claim C1 at two firings of the change handler, with an asynchronous \<open>change\<close>
  action configured and neither promise settled yet: each firing takes the lock, calls
  the callback and releases the lock when the callback has returned its promise, so the
  second body is started while the first is still in flight.
\<close>

theorem change_bodies_overlap:
  "in_flight (run_loop ext0 this_async
      [EvChange ''/repo/packages/core/a.ts'' None, EvChange ''/repo/packages/core/b.ts'' None]
      state0) = [0, 1] \<and>
   trace (run_loop ext0 this_async
      [EvChange ''/repo/packages/core/a.ts'' None, EvChange ''/repo/packages/core/b.ts'' None]
      state0) =
     [Logged (Log True ''Performing Action\<newline>'' ''log''),
      Logged (Custom ''File Changed'' ''info'' ''packages/core/a.ts''),
      LockAcquired,
      Called 0 (UserFn 2 True)
        \<lparr>currentPkg = ''core'', packagePath = ''/repo/packages/core'',
         filePath = ''/repo/packages/core/a.ts'', stats = Some (Stats 0)\<rparr>,
      LockReleased,
      Logged (Log True ''Performing Action\<newline>'' ''log''),
      Logged (Custom ''File Changed'' ''info'' ''packages/core/b.ts''),
      LockAcquired,
      Called 1 (UserFn 2 True)
        \<lparr>currentPkg = ''core'', packagePath = ''/repo/packages/core'',
         filePath = ''/repo/packages/core/b.ts'', stats = Some (Stats 0)\<rparr>,
      LockReleased]"
  by code_simp

section \<open>The debounced change handler\<close>

declare run_timers.simps [simp del] drain.simps [simp del]

lemma onChange_params_simps [simp]:
  "wait onChange_params = 2000" "maxing onChange_params" "maxWait onChange_params = 3000"
  "leading onChange_params" "trailing onChange_params"
  by (simp_all add: onChange_params_def debounce_params_of_def)

lemma run_timers_idle: "timerId s = None \<Longrightarrow> run_timers p t s = s"
  by (simp add: run_timers.simps)

lemma run_timers_early: "timerId s = Some d \<Longrightarrow> t < d \<Longrightarrow> run_timers p t s = s"
  by (simp add: run_timers.simps)

lemma first_call:
  "debounced onChange_params t1 a1 (run_timers onChange_params t1 debounce_init)
     = in_window t1 a1 t1 None"
  by (simp add: run_timers_idle debounce_init_def debounced_def shouldInvoke_def
      leadingEdge_def invokeFunc_def in_window_def Let_def)

lemma window_call:
  "lc \<le> t \<Longrightarrow> t < t1 + 2000 \<Longrightarrow> t1 \<le> lc \<Longrightarrow>
   debounced onChange_params t a (run_timers onChange_params t (in_window t1 a1 lc la))
     = in_window t1 a1 t (Some a)"
  by (simp add: run_timers_early [of _ "t1 + 2000"] in_window_def debounced_def shouldInvoke_def Let_def)

lemma feed_window:
  "calls \<noteq> [] \<Longrightarrow> sorted (lc # map fst calls) \<Longrightarrow> \<forall>c \<in> set calls. fst c < t1 + 2000 \<Longrightarrow>
   t1 \<le> lc \<Longrightarrow>
   feed onChange_params calls (in_window t1 a1 lc la)
     = in_window t1 a1 (fst (last calls)) (Some (snd (last calls)))"
proof (induction calls arbitrary: lc la)
  case Nil
  then show ?case by simp
next
  case (Cons c calls)
  obtain t a where c: "c = (t, a)" by (cases c)
  from Cons.prems c have step:
    "debounced onChange_params t a (run_timers onChange_params t (in_window t1 a1 lc la))
       = in_window t1 a1 t (Some a)"
    by (intro window_call) auto
  show ?case
  proof (cases "calls = []")
    case True
    with c step show ?thesis by simp
  next
    case False
    from Cons.prems c have "sorted (t # map fst calls)" "\<forall>c \<in> set calls. fst c < t1 + 2000" "t1 \<le> t"
      by auto
    from Cons.IH [OF False this] c step False show ?thesis by simp
  qed
qed

lemma drain_idle: "timerId s = None \<Longrightarrow> drain p s = s"
  by (subst drain.simps) simp

lemma drain_step: "timerId s = Some d \<Longrightarrow> drain p s = drain p (timerExpired p d s)"
  by (subst drain.simps) simp

lemma drain_single:
  "drain onChange_params (in_window t1 a1 t1 None) = (in_window t1 a1 t1 None)\<lparr>timerId := None\<rparr>"
proof -
  have "drain onChange_params (in_window t1 a1 t1 None)
      = drain onChange_params (timerExpired onChange_params (t1 + 2000) (in_window t1 a1 t1 None))"
    by (rule drain_step) (simp add: in_window_def)
  also have "timerExpired onChange_params (t1 + 2000) (in_window t1 a1 t1 None)
      = (in_window t1 a1 t1 None)\<lparr>timerId := None\<rparr>"
    by (simp add: in_window_def timerExpired_def shouldInvoke_def trailingEdge_def Let_def)
  also have "drain onChange_params ((in_window t1 a1 t1 None)\<lparr>timerId := None\<rparr>)
      = (in_window t1 a1 t1 None)\<lparr>timerId := None\<rparr>"
    by (rule drain_idle) simp
  finally show ?thesis .
qed

lemma drain_window:
  "t1 \<le> lc \<Longrightarrow> lc < t1 + 2000 \<Longrightarrow>
   invoked (drain onChange_params (in_window t1 a1 lc (Some a)))
     = [(t1, Some a1), (min (lc + 2000) (t1 + 3000), Some a)]"
proof -
  assume b: "t1 \<le> lc" "lc < t1 + 2000"
  let ?s = "in_window t1 a1 lc (Some a)"
  let ?fin = "\<lparr>lastArgs = None, lastCallTime = Some lc, lastInvokeTime = min (lc + 2000) (t1 + 3000),
      timerId = None, invoked = [(t1, Some a1), (min (lc + 2000) (t1 + 3000), Some a)]\<rparr>"
  have fin: "drain onChange_params ?fin = ?fin"
    by (rule drain_idle) simp
  have first: "drain onChange_params ?s
      = drain onChange_params (timerExpired onChange_params (t1 + 2000) ?s)"
    by (rule drain_step) (simp add: in_window_def)
  show ?thesis
  proof (cases "lc = t1")
    case True
    then have "timerExpired onChange_params (t1 + 2000) ?s = ?fin"
      by (simp add: in_window_def timerExpired_def shouldInvoke_def trailingEdge_def
          invokeFunc_def Let_def)
    with first fin show ?thesis by simp
  next
    case False
    let ?mid = "?s\<lparr>timerId := Some (min (lc + 2000) (t1 + 3000))\<rparr>"
    from False b have one: "timerExpired onChange_params (t1 + 2000) ?s = ?mid"
      by (auto simp: in_window_def timerExpired_def shouldInvoke_def remainingWait_def Let_def
          min_def)
    from b have two: "timerExpired onChange_params (min (lc + 2000) (t1 + 3000)) ?mid = ?fin"
      by (auto simp: in_window_def timerExpired_def shouldInvoke_def trailingEdge_def
          invokeFunc_def Let_def min_def)
    have "drain onChange_params ?mid
        = drain onChange_params (timerExpired onChange_params (min (lc + 2000) (t1 + 3000)) ?mid)"
      by (rule drain_step) simp
    with first one two fin show ?thesis by simp
  qed
qed

lemma burst_single: "debounce_run onChange_params [(t, a)] = [(t, Some a)]"
  by (simp add: debounce_run_def first_call drain_single) (simp add: in_window_def)

lemma burst_in_window:
  "rest \<noteq> [] \<Longrightarrow> sorted (t1 # map fst rest) \<Longrightarrow> \<forall>c \<in> set rest. fst c < t1 + 2000 \<Longrightarrow>
   debounce_run onChange_params ((t1, a1) # rest)
     = [(t1, Some a1), (min (fst (last rest) + 2000) (t1 + 3000), Some (snd (last rest)))]"
proof -
  assume r: "rest \<noteq> []" "sorted (t1 # map fst rest)" "\<forall>c \<in> set rest. fst c < t1 + 2000"
  then have "t1 \<le> fst (last rest)" "fst (last rest) < t1 + 2000"
    by auto
  with r show ?thesis
    by (simp add: debounce_run_def first_call feed_window drain_window)
qed

lemma nonempty_length: "xs \<noteq> [] \<Longrightarrow> Suc 0 \<le> length xs"
  by (cases xs) simp_all

lemma timerExpired_fed:
  "fed t1 a1 tn al twice s \<Longrightarrow> timerId s = Some d \<Longrightarrow>
   fed t1 a1 tn al twice (timerExpired onChange_params d s)"
  by (auto simp: fed_def timerExpired_def shouldInvoke_def remainingWait_def trailingEdge_def
      invokeFunc_def Let_def nonempty_length split: option.splits)

lemma run_timers_due: "timerId (run_timers p t s) = Some d \<Longrightarrow> t < d"
proof (induction p t s rule: run_timers.induct)
  case (1 p t s)
  show ?case
  proof (cases "timerId s")
    case None
    with "1.prems" show ?thesis by (simp add: run_timers_idle)
  next
    case (Some d0)
    show ?thesis
    proof (cases "d0 \<le> t")
      case True
      with Some "1.prems" have "timerId (run_timers p t (timerExpired p d0 s)) = Some d"
        by (subst (asm) run_timers.simps) simp
      with "1.IH" [OF Some True] show ?thesis by simp
    next
      case False
      with Some "1.prems" show ?thesis by (simp add: run_timers_early)
    qed
  qed
qed

lemma run_timers_fed:
  "fed t1 a1 tn al twice s \<Longrightarrow> fed t1 a1 tn al twice (run_timers onChange_params t s)"
proof (induction onChange_params t s rule: run_timers.induct)
  case (1 t s)
  show ?case
  proof (cases "timerId s")
    case None
    with "1.prems" show ?thesis by (simp add: run_timers_idle)
  next
    case (Some d0)
    show ?thesis
    proof (cases "d0 \<le> t")
      case True
      have "run_timers onChange_params t s
          = run_timers onChange_params t (timerExpired onChange_params d0 s)"
        using Some True by (subst run_timers.simps) simp
      with "1.hyps" [OF Some True] timerExpired_fed [OF "1.prems" Some] show ?thesis by simp
    next
      case False
      with Some "1.prems" show ?thesis by (simp add: run_timers_early)
    qed
  qed
qed

lemma debounced_fed:
  "fed t1 a1 tn al twice s \<Longrightarrow> tn \<le> t \<Longrightarrow> \<forall>d. timerId s = Some d \<longrightarrow> t < d \<Longrightarrow>
   fed t1 a1 t a True (debounced onChange_params t a s)"
  by (auto simp: fed_def debounced_def shouldInvoke_def leadingEdge_def invokeFunc_def Let_def
      nonempty_length split: option.splits)

lemma feed_fed:
  "fed t1 a1 tn al twice s \<Longrightarrow> calls \<noteq> [] \<Longrightarrow> sorted (tn # map fst calls) \<Longrightarrow>
   fed t1 a1 (fst (last calls)) (snd (last calls)) True (feed onChange_params calls s)"
proof (induction calls arbitrary: tn al twice s)
  case Nil
  then show ?case by simp
next
  case (Cons c calls)
  obtain t a where c: "c = (t, a)" by (cases c)
  from Cons.prems c have le: "tn \<le> t" by simp
  have step: "fed t1 a1 t a True (debounced onChange_params t a (run_timers onChange_params t s))"
    using run_timers_fed [OF Cons.prems(1)] le run_timers_due [of onChange_params t s]
    by (intro debounced_fed) auto
  show ?case
  proof (cases "calls = []")
    case True
    with c step show ?thesis by simp
  next
    case False
    from Cons.prems c have "sorted (t # map fst calls)" by simp
    from Cons.IH [OF step False this] c False show ?thesis by simp
  qed
qed

lemma drain_fed:
  "fed t1 a1 tn al twice s \<Longrightarrow>
   fed t1 a1 tn al twice (drain onChange_params s) \<and> timerId (drain onChange_params s) = None"
proof (induction onChange_params s rule: drain.induct)
  case (1 s)
  show ?case
  proof (cases "timerId s")
    case None
    with "1.prems" show ?thesis by (simp add: drain_idle)
  next
    case (Some d)
    from "1.hyps" [OF Some timerExpired_fed [OF "1.prems" Some]] drain_step [OF Some]
    show ?thesis by simp
  qed
qed

lemma first_call_fed: "fed t1 a1 t1 a1 False (in_window t1 a1 t1 None)"
  by (simp add: fed_def in_window_def)

lemma burst_general:
  "rest \<noteq> [] \<Longrightarrow> sorted (t1 # map fst rest) \<Longrightarrow>
   2 \<le> length (debounce_run onChange_params ((t1, a1) # rest)) \<and>
   hd (debounce_run onChange_params ((t1, a1) # rest)) = (t1, Some a1) \<and>
   snd (last (debounce_run onChange_params ((t1, a1) # rest))) = Some (snd (last rest)) \<and>
   fst (last rest) \<le> fst (last (debounce_run onChange_params ((t1, a1) # rest)))"
proof -
  assume r: "rest \<noteq> []" "sorted (t1 # map fst rest)"
  let ?s = "feed onChange_params rest (in_window t1 a1 t1 None)"
  from feed_fed [OF first_call_fed r]
  have "fed t1 a1 (fst (last rest)) (snd (last rest)) True ?s" .
  from drain_fed [OF this] show ?thesis
    by (auto simp: debounce_run_def first_call fed_def split: option.splits)
qed

lemma timerExpired_invoked: "Sublist.prefix (invoked s) (invoked (timerExpired p d s))"
  by (simp add: timerExpired_def trailingEdge_def invokeFunc_def Let_def)

lemma debounced_invoked: "Sublist.prefix (invoked s) (invoked (debounced p t a s))"
  by (simp add: debounced_def leadingEdge_def invokeFunc_def Let_def)

lemma run_timers_invoked: "Sublist.prefix (invoked s) (invoked (run_timers p t s))"
proof (induction p t s rule: run_timers.induct)
  case (1 p t s)
  show ?case
  proof (cases "timerId s")
    case None
    then show ?thesis by (simp add: run_timers_idle)
  next
    case (Some d)
    show ?thesis
    proof (cases "d \<le> t")
      case True
      have "run_timers p t s = run_timers p t (timerExpired p d s)"
        using Some True by (subst run_timers.simps) simp
      with "1.IH" [OF Some True] timerExpired_invoked [of s p d] show ?thesis
        by (auto intro: prefix_order.trans)
    next
      case False
      with Some show ?thesis by (simp add: run_timers_early)
    qed
  qed
qed

lemma drain_invoked: "Sublist.prefix (invoked s) (invoked (drain p s))"
proof (induction p s rule: drain.induct)
  case (1 p s)
  show ?case
  proof (cases "timerId s")
    case None
    then show ?thesis by (simp add: drain_idle)
  next
    case (Some d)
    from "1.IH" [OF Some] timerExpired_invoked [of s p d] drain_step [OF Some, of p]
    show ?thesis by (auto intro: prefix_order.trans)
  qed
qed

lemma feed_invoked: "Sublist.prefix (invoked s) (invoked (feed p calls s))"
proof (induction calls arbitrary: s)
  case Nil
  show ?case by simp
next
  case (Cons c calls)
  obtain t a where c: "c = (t, a)" by (cases c)
  have "Sublist.prefix (invoked s) (invoked (debounced p t a (run_timers p t s)))"
    using run_timers_invoked [of s p t] debounced_invoked [of "run_timers p t s" p t a]
    by (rule prefix_order.trans)
  with Cons [of "debounced p t a (run_timers p t s)"] c show ?case
    by (auto intro: prefix_order.trans)
qed

lemma run_timers_period:
  "period t1 a1 lc la s \<Longrightarrow> lc \<le> t \<Longrightarrow> t < lc + 2000 \<Longrightarrow> t < t1 + 3000 \<Longrightarrow>
   period t1 a1 lc la (run_timers onChange_params t s)"
proof (induction onChange_params t s rule: run_timers.induct)
  case (1 t s)
  from "1.prems"(1) obtain d where d: "timerId s = Some d" "lc < d" "d \<le> t1 + 3000"
    by (auto simp: period_def)
  show ?case
  proof (cases "d \<le> t")
    case True
    have eq: "run_timers onChange_params t s
        = run_timers onChange_params t (timerExpired onChange_params d s)"
      using d True by (subst run_timers.simps) simp
    have "period t1 a1 lc la (timerExpired onChange_params d s)"
      using "1.prems" d True
      by (auto simp: period_def timerExpired_def shouldInvoke_def remainingWait_def Let_def)
    from "1.hyps" [OF d(1) True this "1.prems"(2-4)] eq show ?thesis by simp
  next
    case False
    with d "1.prems"(1) show ?thesis by (simp add: run_timers_early)
  qed
qed

lemma run_timers_forced:
  "period t1 a1 lc la s \<Longrightarrow> lc \<le> t \<Longrightarrow> t < lc + 2000 \<Longrightarrow> t1 + 3000 \<le> t \<Longrightarrow>
   invoked (run_timers onChange_params t s) = [(t1, Some a1), (t1 + 3000, Some la)]"
proof (induction onChange_params t s rule: run_timers.induct)
  case (1 t s)
  from "1.prems"(1) obtain d where d: "timerId s = Some d" "lc < d" "d \<le> t1 + 3000"
    by (auto simp: period_def)
  with "1.prems" have due: "d \<le> t" by simp
  have eq: "run_timers onChange_params t s
      = run_timers onChange_params t (timerExpired onChange_params d s)"
    using d due by (subst run_timers.simps) simp
  show ?case
  proof (cases "d = t1 + 3000")
    case True
    with "1.prems" d have
      "timerId (timerExpired onChange_params d s) = None"
      "invoked (timerExpired onChange_params d s) = [(t1, Some a1), (t1 + 3000, Some la)]"
      by (auto simp: period_def timerExpired_def shouldInvoke_def trailingEdge_def
          invokeFunc_def Let_def)
    with eq show ?thesis by (simp add: run_timers_idle)
  next
    case False
    have "period t1 a1 lc la (timerExpired onChange_params d s)"
      using "1.prems" d due False
      by (auto simp: period_def timerExpired_def shouldInvoke_def remainingWait_def Let_def)
    from "1.hyps" [OF d(1) due this "1.prems"(2-4)] eq show ?thesis by simp
  qed
qed

lemma debounced_period:
  "period t1 a1 lc la s \<Longrightarrow> lc \<le> t \<Longrightarrow> t < lc + 2000 \<Longrightarrow> t < t1 + 3000 \<Longrightarrow>
   \<forall>d. timerId s = Some d \<longrightarrow> t < d \<Longrightarrow>
   period t1 a1 t a (debounced onChange_params t a s)"
  by (auto simp: period_def debounced_def shouldInvoke_def Let_def)

lemma take2_prefix: "Sublist.prefix [x, y] zs \<Longrightarrow> take 2 zs = [x, y]"
  by (auto simp: prefix_def)

lemma feed_forced:
  "period t1 a1 lc la s \<Longrightarrow> keeps_arriving lc calls \<Longrightarrow> \<exists>c \<in> set calls. t1 + 3000 \<le> fst c \<Longrightarrow>
   take 2 (invoked (feed onChange_params calls s))
     = [(t1, Some a1), (t1 + 3000, Some (latest_before (t1 + 3000) la calls))]"
proof (induction calls arbitrary: lc la s)
  case Nil
  then show ?case by simp
next
  case (Cons c calls)
  obtain t a where c: "c = (t, a)" by (cases c)
  from Cons.prems c have t: "lc \<le> t" "t < lc + 2000" "keeps_arriving t calls" by simp_all
  show ?case
  proof (cases "t < t1 + 3000")
    case True
    have "period t1 a1 lc la (run_timers onChange_params t s)"
      using Cons.prems(1) t(1,2) True by (rule run_timers_period)
    then have p: "period t1 a1 t a (debounced onChange_params t a (run_timers onChange_params t s))"
      using t(1,2) True run_timers_due [of onChange_params t s]
      by (intro debounced_period) auto
    from Cons.prems(3) c True have "\<exists>c \<in> set calls. t1 + 3000 \<le> fst c" by auto
    from Cons.IH [OF p t(3) this] c True show ?thesis by simp
  next
    case False
    then have "invoked (run_timers onChange_params t s) = [(t1, Some a1), (t1 + 3000, Some la)]"
      using Cons.prems(1) t(1,2) by (intro run_timers_forced) auto
    moreover have "Sublist.prefix (invoked (run_timers onChange_params t s))
        (invoked (feed onChange_params (c # calls) s))"
      using debounced_invoked [of "run_timers onChange_params t s" onChange_params t a]
        feed_invoked [of "debounced onChange_params t a (run_timers onChange_params t s)"
          onChange_params calls] c
      by (auto intro: prefix_order.trans)
    ultimately show ?thesis
      using c False by (simp add: take2_prefix)
  qed
qed

lemma burst_forced:
  "keeps_arriving t1 rest \<Longrightarrow> \<exists>c \<in> set rest. t1 + 3000 \<le> fst c \<Longrightarrow>
   take 2 (debounce_run onChange_params ((t1, a1) # rest))
     = [(t1, Some a1), (t1 + 3000, Some (latest_before (t1 + 3000) a1 rest))]"
proof -
  assume k: "keeps_arriving t1 rest" and far: "\<exists>c \<in> set rest. t1 + 3000 \<le> fst c"
  then obtain t2 a2 calls where rest: "rest = (t2, a2) # calls"
    by (cases rest) auto
  with k have t2: "t1 \<le> t2" "t2 < t1 + 2000" "keeps_arriving t2 calls" by simp_all
  have p: "period t1 a1 t2 a2 (in_window t1 a1 t2 (Some a2))"
    using t2 by (simp add: period_def in_window_def)
  from far rest t2 have far': "\<exists>c \<in> set calls. t1 + 3000 \<le> fst c" by auto
  let ?s = "feed onChange_params calls (in_window t1 a1 t2 (Some a2))"
  have "take 2 (invoked ?s) = [(t1, Some a1), (t1 + 3000, Some (latest_before (t1 + 3000) a2 calls))]"
    using p t2(3) far' by (rule feed_forced)
  moreover have "Sublist.prefix (invoked ?s) (invoked (drain onChange_params ?s))"
    by (rule drain_invoked)
  ultimately have "take 2 (invoked (drain onChange_params ?s))
      = [(t1, Some a1), (t1 + 3000, Some (latest_before (t1 + 3000) a2 calls))]"
    using take_is_prefix [of 2 "invoked ?s"]
    by (intro take2_prefix) (auto intro: prefix_order.trans)
  then show ?thesis
    using rest t2 by (simp add: debounce_run_def first_call window_call)
qed

lemma leading_fire:
  "timerId s = None \<Longrightarrow> \<forall>lc. lastCallTime s = Some lc \<longrightarrow> lc + 2000 \<le> u \<Longrightarrow>
   invoked (debounced onChange_params u b s) = invoked s @ [(u, Some b)]"
  by (auto simp: debounced_def shouldInvoke_def leadingEdge_def invokeFunc_def Let_def
      split: option.splits)

text \<open>
  Claim C2, as the debouncer behaves with a wait of 2000, a maximum wait of 3000 and
  both edges on. The first call of a burst invokes the handler at once, with its own
  arguments. A single call is invoked once. A burst of two or more calls, all less than
  2000 after the first, is invoked exactly twice: at once with the arguments of the
  first call, and once more with those of the last call, 2000 after the last call or
  3000 after the first, whichever is earlier. Any burst of two or more calls, so also
  one that spans more than the maximum wait, is invoked more than once, first with the
  arguments of the first call and last with those of the last call, not before it.
  When calls keep arriving less than 2000 apart until 3000 or more after the first,
  the second invocation is forced 3000 after the first, with the arguments of the
  latest call before that time. In any state with no timer pending and the last call
  2000 or more ago, a call is the first of a new burst and is invoked at once.
\<close>

theorem debounce_bursts:
  "debounce_run onChange_params [(t, a)] = [(t, Some a)] \<and>
   (rest \<noteq> [] \<and> sorted (t1 # map fst rest) \<and> (\<forall>c \<in> set rest. fst c < t1 + 2000) \<longrightarrow>
      debounce_run onChange_params ((t1, a1) # rest)
        = [(t1, Some a1), (min (fst (last rest) + 2000) (t1 + 3000), Some (snd (last rest)))]) \<and>
   (rest \<noteq> [] \<and> sorted (t1 # map fst rest) \<longrightarrow>
      2 \<le> length (debounce_run onChange_params ((t1, a1) # rest)) \<and>
      hd (debounce_run onChange_params ((t1, a1) # rest)) = (t1, Some a1) \<and>
      snd (last (debounce_run onChange_params ((t1, a1) # rest))) = Some (snd (last rest)) \<and>
      fst (last rest) \<le> fst (last (debounce_run onChange_params ((t1, a1) # rest)))) \<and>
   (keeps_arriving t1 rest \<and> (\<exists>c \<in> set rest. t1 + 3000 \<le> fst c) \<longrightarrow>
      take 2 (debounce_run onChange_params ((t1, a1) # rest))
        = [(t1, Some a1), (t1 + 3000, Some (latest_before (t1 + 3000) a1 rest))]) \<and>
   (timerId s = None \<and> (\<forall>lc. lastCallTime s = Some lc \<longrightarrow> lc + 2000 \<le> u) \<longrightarrow>
      invoked (debounced onChange_params u b s) = invoked s @ [(u, Some b)])"
  using burst_single [of t a] burst_in_window [of rest t1 a1] burst_general [of rest t1 a1]
    burst_forced [of t1 rest a1] leading_fire [of s u b]
  by blast

text \<open>
  C2 at two changes 100 apart, and at four changes that keep arriving for 4500.
\<close>

theorem debounce_bursts_witness:
  "debounce_run onChange_params [(0, ''a.ts''), (100, ''b.ts'')]
     = [(0, Some ''a.ts''), (2100, Some ''b.ts'')] \<and>
   take 2 (debounce_run onChange_params
            [(0, ''a.ts''), (1500, ''b.ts''), (2900, ''c.ts''), (4500, ''d.ts'')])
     = [(0, Some ''a.ts''), (3000, Some ''c.ts'')] \<and>
   2 \<le> length (debounce_run onChange_params
            [(0, ''a.ts''), (1500, ''b.ts''), (2900, ''c.ts''), (4500, ''d.ts'')]) \<and>
   snd (last (debounce_run onChange_params
            [(0, ''a.ts''), (1500, ''b.ts''), (2900, ''c.ts''), (4500, ''d.ts'')]))
     = Some ''d.ts'' \<and>
   invoked (debounced onChange_params 7000 ''e.ts''
      \<lparr>lastArgs = None, lastCallTime = Some 100, lastInvokeTime = 2100, timerId = None,
       invoked = [(0, Some ''a.ts''), (2100, Some ''b.ts'')]\<rparr>)
     = [(0, Some ''a.ts''), (2100, Some ''b.ts''), (7000, Some ''e.ts'')]"
  using debounce_bursts [of 0 "''a.ts''" "[(100, ''b.ts'')]" 0 "''a.ts''"
      "\<lparr>lastArgs = None, lastCallTime = Some 100, lastInvokeTime = 2100, timerId = None,
        invoked = [(0, Some ''a.ts''), (2100, Some ''b.ts'')]\<rparr>" 7000 "''e.ts''"]
    debounce_bursts [of 0 "''a.ts''" "[(1500, ''b.ts''), (2900, ''c.ts''), (4500, ''d.ts'')]" 0
      "''a.ts''" debounce_init 0 "''a.ts''"]
  by simp

text \<open>
  C2 as stated fails: two changes 100 apart, both within the quiet window, are invoked
  twice, and the first invocation carries the path of the first change.
\<close>

theorem burst_fires_once_counterexample:
  "debounce_run onChange_params [(0, ''a.ts''), (100, ''b.ts'')]
     = [(0, Some ''a.ts''), (2100, Some ''b.ts'')] \<and>
   length (debounce_run onChange_params [(0, ''a.ts''), (100, ''b.ts'')]) \<noteq> 1 \<and>
   snd (hd (debounce_run onChange_params [(0, ''a.ts''), (100, ''b.ts'')])) \<noteq> Some ''b.ts''"
  by (simp add: burst_in_window)

end
